theory Spec2Isabelle
  imports Complex_Main "HOL-Library.Log_Nat"
begin

section \<open>JavaScript numbers\<close>

text \<open>
  The ledger of \<^verbatim>\<open>POST /api/strategy/deposit\<close> keeps balances and fees in the JavaScript
  type \<^verbatim>\<open>number\<close>: IEEE 754 binary64. A number is NaN, one of the two infinities, or a
  finite value; a finite value is carried as the rational it denotes. The two zeros are
  not distinguished: no operation of the handlers observes the sign of zero
  (\<^verbatim>\<open>-0 <= 0\<close> holds like \<^verbatim>\<open>0 <= 0\<close>, and \<^verbatim>\<open>(-0).toFixed(8)\<close> prints no sign).
\<close>

datatype number = NaN | PInf | NInf | Fin rat

text \<open>\<open>ilog2 q\<close> is the binary exponent of a positive rational: \<open>2^e \<le> q < 2^(e+1)\<close>.\<close>

definition ilog2 :: "rat \<Rightarrow> int" where
  "ilog2 q = (case quotient_of q of (n, d) \<Rightarrow>
     (let k = bitlen n - bitlen d in if 2 powi k \<le> q then k else k - 1))"

text \<open>Rounding to the nearest integer, ties to the even one.\<close>

definition rhe :: "rat \<Rightarrow> int" where
  "rhe y = (let f = \<lfloor>y\<rfloor>; r = y - of_int f in
     if r < 1 / 2 then f else if 1 / 2 < r then f + 1 else if even f then f else f + 1)"

text \<open>
  The exponent of the unit in the last place: 53 significant bits, and no exponent
  below that of the subnormal numbers.
\<close>

definition ex :: "rat \<Rightarrow> int" where
  "ex q = max (ilog2 \<bar>q\<bar> - 52) (- 1074)"

text \<open>
  \<open>rnd q\<close> rounds \<open>q\<close> to 53 significant bits, to nearest and ties to even, with no
  bound on the exponent above. \<open>fl q\<close> is the binary64 value of the real number \<open>q\<close>:
  \<open>rnd q\<close>, and an infinity from \<open>2^1024\<close> on. Every arithmetic operation of the language
  and every conversion of a decimal literal returns \<open>fl\<close> of its exact result.
\<close>

definition rnd :: "rat \<Rightarrow> rat" where
  "rnd q = of_int (rhe (q / 2 powi ex q)) * 2 powi ex q"

definition fl :: "rat \<Rightarrow> number" where
  "fl q = (let r = rnd q in
     if 2 ^ 1024 \<le> r then PInf else if r \<le> - (2 ^ 1024) then NInf else Fin r)"

text \<open>The rationals that are binary64 values.\<close>

definition is_double :: "rat \<Rightarrow> bool" where
  "is_double q = (fl q = Fin q)"

definition num_neg :: "number \<Rightarrow> number" where
  "num_neg x = (case x of NaN \<Rightarrow> NaN | PInf \<Rightarrow> NInf | NInf \<Rightarrow> PInf | Fin a \<Rightarrow> Fin (- a))"

definition num_add :: "number \<Rightarrow> number \<Rightarrow> number" where
  "num_add x y = (case x of
       NaN \<Rightarrow> NaN
     | PInf \<Rightarrow> (case y of NaN \<Rightarrow> NaN | NInf \<Rightarrow> NaN | _ \<Rightarrow> PInf)
     | NInf \<Rightarrow> (case y of NaN \<Rightarrow> NaN | PInf \<Rightarrow> NaN | _ \<Rightarrow> NInf)
     | Fin a \<Rightarrow> (case y of NaN \<Rightarrow> NaN | PInf \<Rightarrow> PInf | NInf \<Rightarrow> NInf | Fin b \<Rightarrow> fl (a + b)))"

definition num_sub :: "number \<Rightarrow> number \<Rightarrow> number" where
  "num_sub x y = num_add x (num_neg y)"

definition inf_of_sign :: "rat \<Rightarrow> number" where
  "inf_of_sign a = (if a = 0 then NaN else if 0 < a then PInf else NInf)"

definition num_mul :: "number \<Rightarrow> number \<Rightarrow> number" where
  "num_mul x y = (case x of
       NaN \<Rightarrow> NaN
     | PInf \<Rightarrow> (case y of NaN \<Rightarrow> NaN | PInf \<Rightarrow> PInf | NInf \<Rightarrow> NInf | Fin b \<Rightarrow> inf_of_sign b)
     | NInf \<Rightarrow> (case y of NaN \<Rightarrow> NaN | PInf \<Rightarrow> NInf | NInf \<Rightarrow> PInf | Fin b \<Rightarrow> inf_of_sign (- b))
     | Fin a \<Rightarrow> (case y of NaN \<Rightarrow> NaN | PInf \<Rightarrow> inf_of_sign a | NInf \<Rightarrow> inf_of_sign (- a)
                  | Fin b \<Rightarrow> fl (a * b)))"

text \<open>The comparisons \<^verbatim>\<open><\<close> and \<^verbatim>\<open><=\<close>: false as soon as one side is NaN.\<close>

definition num_lt :: "number \<Rightarrow> number \<Rightarrow> bool" where
  "num_lt x y = (case x of
       NaN \<Rightarrow> False
     | PInf \<Rightarrow> False
     | NInf \<Rightarrow> (case y of NaN \<Rightarrow> False | NInf \<Rightarrow> False | _ \<Rightarrow> True)
     | Fin a \<Rightarrow> (case y of NaN \<Rightarrow> False | NInf \<Rightarrow> False | PInf \<Rightarrow> True | Fin b \<Rightarrow> a < b))"

definition num_le :: "number \<Rightarrow> number \<Rightarrow> bool" where
  "num_le x y = (case x of
       NaN \<Rightarrow> False
     | PInf \<Rightarrow> (case y of PInf \<Rightarrow> True | _ \<Rightarrow> False)
     | NInf \<Rightarrow> (case y of NaN \<Rightarrow> False | _ \<Rightarrow> True)
     | Fin a \<Rightarrow> (case y of NaN \<Rightarrow> False | NInf \<Rightarrow> False | PInf \<Rightarrow> True | Fin b \<Rightarrow> a \<le> b))"

text \<open>\<^verbatim>\<open>Number.isFinite\<close>.\<close>

definition isFinite :: "number \<Rightarrow> bool" where
  "isFinite x = (case x of Fin a \<Rightarrow> True | _ \<Rightarrow> False)"

text \<open>
  \<^verbatim>\<open>Number(x.toFixed(8))\<close>, the rounding the deposit handler applies three times.
  \<^verbatim>\<open>toFixed(8)\<close> prints NaN and the infinities by name, a value of magnitude \<open>10^21\<close> or
  more in the shortest notation that reads back as the same number, and any other value
  as the decimal \<open>n / 10^8\<close>, where \<open>n\<close> is the integer nearest to \<open>\<bar>x\<bar> * 10^8\<close> (the larger
  one on a tie), with the sign of \<open>x\<close> in front. \<^verbatim>\<open>Number\<close> reads the string back as the
  binary64 value of that decimal, correctly rounded.
\<close>

definition toFixed8_n :: "rat \<Rightarrow> int" where
  "toFixed8_n x = \<lfloor>x * 10 ^ 8 + 1 / 2\<rfloor>"

definition Number_toFixed8 :: "number \<Rightarrow> number" where
  "Number_toFixed8 x = (case x of
       Fin a \<Rightarrow>
         (if 10 ^ 21 \<le> \<bar>a\<bar> then Fin a
          else if a < 0 then fl (- (of_int (toFixed8_n (- a)) / 10 ^ 8))
          else fl (of_int (toFixed8_n a) / 10 ^ 8))
     | _ \<Rightarrow> x)"


section \<open>Request values and the conversion \<^verbatim>\<open>Number(v)\<close>\<close>

text \<open>
  A field of a parsed request body: a JSON value. A number of the body is carried as the
  value of its decimal literal and becomes a binary64 value when it is read. An object is
  carried as the list of its own properties; it is an ordinary object, and an array an
  ordinary array, as \<^verbatim>\<open>JSON.parse\<close> builds them.
\<close>

datatype jsvalue = JNull | JBool bool | JNum rat | JStr string
  | JArr "jsvalue list" | JObj "(string \<times> jsvalue) list"

definition is_ws :: "char \<Rightarrow> bool" where
  "is_ws c = ((of_char c :: nat) \<in> {9, 10, 11, 12, 13, 32, 160})"

definition trim :: "string \<Rightarrow> string" where
  "trim s = rev (dropWhile is_ws (rev (dropWhile is_ws s)))"

definition digit_of :: "char \<Rightarrow> nat" where
  "digit_of c = (let n = (of_char c :: nat) in
     if 48 \<le> n \<and> n \<le> 57 then n - 48
     else if 97 \<le> n \<and> n \<le> 102 then n - 87
     else if 65 \<le> n \<and> n \<le> 70 then n - 55
     else 36)"

definition is_digit :: "nat \<Rightarrow> char \<Rightarrow> bool" where
  "is_digit b c = (digit_of c < b)"

definition digits_value :: "nat \<Rightarrow> string \<Rightarrow> nat" where
  "digits_value b s = foldl (\<lambda>acc c. acc * b + digit_of c) 0 s"

text \<open>\<^verbatim>\<open>0x\<close>, \<^verbatim>\<open>0o\<close> and \<^verbatim>\<open>0b\<close> literals: no sign, at least one digit.\<close>

definition NonDecimalIntegerLiteral :: "string \<Rightarrow> nat option" where
  "NonDecimalIntegerLiteral s = (case s of
       z # p # ds \<Rightarrow>
         (let b = (if p \<in> set ''xX'' then 16 else if p \<in> set ''oO'' then 8
                   else if p \<in> set ''bB'' then 2 else (0::nat))
          in if z = CHR ''0'' \<and> b \<noteq> 0 \<and> ds \<noteq> [] \<and> list_all (is_digit b) ds
             then Some (digits_value b ds) else None)
     | _ \<Rightarrow> None)"

text \<open>The exponent part of a decimal literal; the empty string is exponent 0.\<close>

definition SignedInteger :: "string \<Rightarrow> int option" where
  "SignedInteger s = (let (neg, ds) = (case s of
         c # t \<Rightarrow> if c = CHR ''-'' then (True, t) else if c = CHR ''+'' then (False, t)
                  else (False, s)
       | [] \<Rightarrow> (False, s))
     in if ds \<noteq> [] \<and> list_all (is_digit 10) ds
        then Some (if neg then - int (digits_value 10 ds) else int (digits_value 10 ds))
        else None)"

definition ExponentPart :: "string \<Rightarrow> int option" where
  "ExponentPart s = (case s of
       [] \<Rightarrow> Some 0
     | c # t \<Rightarrow> if c \<in> set ''eE'' then SignedInteger t else None)"

text \<open>
  The mathematical value of an unsigned decimal literal: digits, an optional point and
  fraction, an optional exponent; at least one digit before the exponent.
\<close>

definition StrUnsignedDecimalLiteral :: "string \<Rightarrow> rat option" where
  "StrUnsignedDecimalLiteral s =
     (let ip = takeWhile (is_digit 10) s; r1 = dropWhile (is_digit 10) s;
          (fp, r2) = (case r1 of
               c # t \<Rightarrow> if c = CHR ''.''
                        then (takeWhile (is_digit 10) t, dropWhile (is_digit 10) t)
                        else ([], r1)
             | [] \<Rightarrow> ([], r1))
      in if ip = [] \<and> fp = [] then None
         else (case ExponentPart r2 of
                 None \<Rightarrow> None
               | Some e \<Rightarrow>
                   Some (of_nat (digits_value 10 (ip @ fp)) * 10 powi (e - int (length fp)))))"

definition StrUnsignedNumber :: "string \<Rightarrow> number" where
  "StrUnsignedNumber s = (if s = ''Infinity'' then PInf
     else (case StrUnsignedDecimalLiteral s of None \<Rightarrow> NaN | Some q \<Rightarrow> fl q))"

text \<open>
  \<^verbatim>\<open>Number(s)\<close> for a string: white space is trimmed, the empty string is 0, anything
  that is not a numeric literal is NaN.
\<close>

definition StringToNumber :: "string \<Rightarrow> number" where
  "StringToNumber str = (let s = trim str in
     if s = [] then Fin 0
     else (case NonDecimalIntegerLiteral s of
             Some n \<Rightarrow> fl (of_nat n)
           | None \<Rightarrow>
               (case s of
                  c # t \<Rightarrow> if c = CHR ''-'' then num_neg (StrUnsignedNumber t)
                           else if c = CHR ''+'' then StrUnsignedNumber t
                           else StrUnsignedNumber s
                | [] \<Rightarrow> Fin 0)))"

text \<open>
  The conversion of an object to a primitive value looks up \<^verbatim>\<open>valueOf\<close> and \<^verbatim>\<open>toString\<close> on
  it, calls each one that is callable, and returns the first result that is not an
  object; when there is none it throws a \<^verbatim>\<open>TypeError\<close>. An own property of a parsed object
  is never callable and hides the method of \<^verbatim>\<open>Object.prototype\<close>; the inherited \<^verbatim>\<open>valueOf\<close>
  returns the object itself and the inherited \<^verbatim>\<open>toString\<close> the text \<^verbatim>\<open>[object Object]\<close>. So
  the conversion of an object throws exactly when the object has an own property
  \<^verbatim>\<open>toString\<close>. An array is converted by \<^verbatim>\<open>Array.prototype.join\<close>, which converts each
  element other than \<^verbatim>\<open>null\<close> to a string, so it throws when the conversion of an element
  does.
\<close>

fun ToPrimitive_throws :: "jsvalue \<Rightarrow> bool" where
  "ToPrimitive_throws (JObj ps) = (''toString'' \<in> set (map fst ps))"
| "ToPrimitive_throws (JArr xs) = list_ex ToPrimitive_throws xs"
| "ToPrimitive_throws _ = False"

text \<open>
  The number \<^verbatim>\<open>Number\<close> reads from the text that \<^verbatim>\<open>join\<close> writes for an array element: the
  empty text for \<^verbatim>\<open>null\<close> and for the empty array, the element's own text for an array of one
  element, and a text with a comma, which is no numeric literal, for a longer array. The
  text of a number reads back as that number, \<^verbatim>\<open>true\<close>, \<^verbatim>\<open>false\<close> and \<^verbatim>\<open>[object Object]\<close> are
  no numeric literals.
\<close>

fun element_number :: "jsvalue \<Rightarrow> number" where
  "element_number JNull = Fin 0"
| "element_number (JBool b) = NaN"
| "element_number (JNum q) = fl q"
| "element_number (JStr s) = StringToNumber s"
| "element_number (JObj ps) = NaN"
| "element_number (JArr []) = Fin 0"
| "element_number (JArr [x]) = element_number x"
| "element_number (JArr (x # y # zs)) = NaN"

text \<open>
  \<^verbatim>\<open>Number(v ?? 0)\<close>: an absent field and \<^verbatim>\<open>null\<close> are replaced by 0 first. The call either
  throws a \<^verbatim>\<open>TypeError\<close>, which \<open>Number_nullish0_throws\<close> tells, or returns the number
  \<open>Number_nullish0\<close>; on a value for which the call throws there is no number returned,
  and \<open>Number_nullish0\<close> is NaN there.
\<close>

definition Number_nullish0_throws :: "jsvalue option \<Rightarrow> bool" where
  "Number_nullish0_throws v = (case v of None \<Rightarrow> False | Some x \<Rightarrow> ToPrimitive_throws x)"

definition Number_nullish0 :: "jsvalue option \<Rightarrow> number" where
  "Number_nullish0 v = (case v of
       None \<Rightarrow> Fin 0
     | Some JNull \<Rightarrow> Fin 0
     | Some (JBool b) \<Rightarrow> (if b then Fin 1 else Fin 0)
     | Some (JNum q) \<Rightarrow> fl q
     | Some (JStr s) \<Rightarrow> StringToNumber s
     | Some (JArr xs) \<Rightarrow> element_number (JArr xs)
     | Some (JObj ps) \<Rightarrow> NaN)"

text \<open>\<^verbatim>\<open>!v\<close> for a field typed \<^verbatim>\<open>string | undefined\<close>.\<close>

definition falsy :: "string option \<Rightarrow> bool" where
  "falsy v = (case v of None \<Rightarrow> True | Some s \<Rightarrow> s = [])"


section \<open>The in-memory state of the server\<close>

datatype allocation = STABLE | INVESTED

datatype status = ACTIVE | PAUSED

text \<open>An entry of \<^verbatim>\<open>investorStates\<close>; a \<^verbatim>\<open>Date\<close> is its number of milliseconds.\<close>

record account =
  strategyId :: string
  balance :: number
  allocation :: allocation
  lastDecisionAt :: nat

record state =
  strategyStatus :: "string \<rightharpoonup> status"
  investorStates :: "string \<rightharpoonup> account"
  platformTotalFees :: number

text \<open>The state when the process starts.\<close>

definition initial_state :: state where
  "initial_state = \<lparr>strategyStatus = Map.empty, investorStates = Map.empty,
     platformTotalFees = Fin 0\<rparr>"

text \<open>The body of a deposit request, each field absent or present.\<close>

record deposit_body =
  req_investor :: "string option"
  req_strategyId :: "string option"
  req_amount :: "jsvalue option"
  req_asset :: "string option"

text \<open>The \<^verbatim>\<open>data\<close> object of a successful deposit.\<close>

record deposit_data =
  res_investor :: string
  res_strategyId :: string
  res_asset :: string
  newBalance :: number
  res_allocation :: allocation
  feeCharged :: number
  res_platformTotalFees :: number
  simulated :: bool
  decidedAt :: nat

text \<open>The three responses of a handler: status 200 with its data, 400 and 500.\<close>

datatype 'a response = Success 'a | ValidationFailed | InternalFailure


section \<open>The handlers\<close>

text \<open>
  \<^verbatim>\<open>decideAllocation\<close>, as a function of the value that \<^verbatim>\<open>Math.random()\<close> returns to it.
\<close>

definition decideAllocation :: "rat \<Rightarrow> allocation" where
  "decideAllocation random = (let signal = num_sub (fl random) (Fin (1 / 2)) in
     if num_lt (Fin 0) signal then INVESTED else STABLE)"

text \<open>\<^verbatim>\<open>const feeRate = 0.005\<close>: the binary64 value of the literal.\<close>

definition feeRate :: number where
  "feeRate = fl (5 / 1000)"

text \<open>
  The account the handler works on: the stored one, or a fresh one for the request's
  strategy.
\<close>

definition current_account :: "state \<Rightarrow> string \<Rightarrow> string \<Rightarrow> account" where
  "current_account st investor sid = (case investorStates st investor of
       Some a \<Rightarrow> a
     | None \<Rightarrow> \<lparr>strategyId = sid, balance = Fin 0, allocation = STABLE, lastDecisionAt = 0\<rparr>)"

text \<open>
  The fields as the handler reads them: \<^verbatim>\<open>req.body && req.body.investor\<close>,
  \<^verbatim>\<open>req.body && req.body.strategyId\<close> and \<^verbatim>\<open>Number((req.body && req.body.amount) ?? 0)\<close>,
  which throws or returns the amount; and the validation of the deposit handler (the
  condition of its first \<^verbatim>\<open>if\<close>).
\<close>

definition deposit_amount_throws :: "deposit_body option \<Rightarrow> bool" where
  "deposit_amount_throws body = Number_nullish0_throws (Option.bind body req_amount)"

definition deposit_amount :: "deposit_body option \<Rightarrow> number" where
  "deposit_amount body = Number_nullish0 (Option.bind body req_amount)"

definition deposit_invalid :: "deposit_body option \<Rightarrow> bool" where
  "deposit_invalid body =
     (falsy (Option.bind body req_investor) \<or> falsy (Option.bind body req_strategyId) \<or>
      \<not> isFinite (deposit_amount body) \<or> num_le (deposit_amount body) (Fin 0))"

text \<open>
  The balance after \<^verbatim>\<open>current.balance += amount\<close> and before any fee, and the test
  \<^verbatim>\<open>current.allocation !== simulatedDecision\<close> of the handler.
\<close>

definition post_balance :: "state \<Rightarrow> string \<Rightarrow> string \<Rightarrow> number \<Rightarrow> number" where
  "post_balance st who sid amount = num_add (balance (current_account st who sid)) amount"

definition switches :: "state \<Rightarrow> string \<Rightarrow> string \<Rightarrow> rat \<Rightarrow> bool" where
  "switches st who sid random =
     (allocation (current_account st who sid) \<noteq> decideAllocation random)"

text \<open>
  The handler after its validation: the update of the account and of the fee total, and
  the success response. \<open>random\<close> is the value \<^verbatim>\<open>Math.random()\<close> returns and \<open>now\<close> the
  clock read by \<^verbatim>\<open>new Date()\<close>.
\<close>

definition apply_deposit ::
  "state \<Rightarrow> string \<Rightarrow> string \<Rightarrow> number \<Rightarrow> string option \<Rightarrow> rat \<Rightarrow> nat
     \<Rightarrow> deposit_data response \<times> state" where
  "apply_deposit st who sid amount asset random now =
     (let current = current_account st who sid;
          current = current\<lparr>balance := num_add (balance current) amount\<rparr>;
          simulatedDecision = decideAllocation random;
          switch = (allocation current \<noteq> simulatedDecision);
          fee = (if switch then Number_toFixed8 (num_mul (balance current) feeRate) else Fin 0);
          current = (if switch
                     then current\<lparr>balance := Number_toFixed8 (num_sub (balance current) fee)\<rparr>
                     else current);
          total = (if switch then Number_toFixed8 (num_add (platformTotalFees st) fee)
                   else platformTotalFees st);
          current = current\<lparr>allocation := simulatedDecision, lastDecisionAt := now,
                             strategyId := sid\<rparr>
      in (Success \<lparr>res_investor = who, res_strategyId = sid,
                    res_asset = (case asset of None \<Rightarrow> ''XLM''
                                 | Some a \<Rightarrow> if a = [] then ''XLM'' else a),
                    newBalance = balance current,
                    res_allocation = allocation current,
                    feeCharged = fee,
                    res_platformTotalFees = total,
                    simulated = True,
                    decidedAt = lastDecisionAt current\<rparr>,
          st\<lparr>investorStates := (investorStates st)(who \<mapsto> current),
             platformTotalFees := total\<rparr>))"

text \<open>
  \<^verbatim>\<open>POST /api/strategy/deposit\<close>. \<open>body\<close> is \<^verbatim>\<open>req.body\<close> (\<open>None\<close> when there is none).
  The handler first reads the fields. The conversion of the amount is the one statement
  of the \<^verbatim>\<open>try\<close> block that can throw; it runs before the validation and before any
  write, and the \<^verbatim>\<open>catch\<close> answers 500. Then comes the validation, which answers 400,
  and then the update.
\<close>

definition deposit ::
  "state \<Rightarrow> deposit_body option \<Rightarrow> rat \<Rightarrow> nat \<Rightarrow> deposit_data response \<times> state" where
  "deposit st body random now =
     (if deposit_amount_throws body then (InternalFailure, st)
      else if deposit_invalid body then (ValidationFailed, st)
      else (case (Option.bind body req_investor, Option.bind body req_strategyId) of
              (Some who, Some sid) \<Rightarrow>
                apply_deposit st who sid (deposit_amount body) (Option.bind body req_asset)
                  random now
            | _ \<Rightarrow> (ValidationFailed, st)))"

text \<open>A request body with the fields \<^verbatim>\<open>investor\<close> and \<^verbatim>\<open>strategyId\<close> present.\<close>

definition deposit_request ::
  "string \<Rightarrow> string \<Rightarrow> jsvalue option \<Rightarrow> string option \<Rightarrow> deposit_body option" where
  "deposit_request who sid amount asset =
     Some \<lparr>req_investor = Some who, req_strategyId = Some sid, req_amount = amount,
            req_asset = asset\<rparr>"

text \<open>
  \<^verbatim>\<open>POST /api/strategies/pause\<close> and \<^verbatim>\<open>POST /api/strategies/resume\<close>; \<open>ident\<close> is the field
  \<^verbatim>\<open>req.body.id\<close>, \<open>None\<close> when the body or the field is absent.
\<close>

definition pauseStrategy :: "state \<Rightarrow> string option \<Rightarrow> unit response \<times> state" where
  "pauseStrategy st ident = (case ident of
       None \<Rightarrow> (ValidationFailed, st)
     | Some i \<Rightarrow> if i = [] then (ValidationFailed, st)
                else (Success (), st\<lparr>strategyStatus := (strategyStatus st)(i \<mapsto> PAUSED)\<rparr>))"

definition resumeStrategy :: "state \<Rightarrow> string option \<Rightarrow> unit response \<times> state" where
  "resumeStrategy st ident = (case ident of
       None \<Rightarrow> (ValidationFailed, st)
     | Some i \<Rightarrow> if i = [] then (ValidationFailed, st)
                else (Success (), st\<lparr>strategyStatus := (strategyStatus st)(i \<mapsto> ACTIVE)\<rparr>))"

text \<open>
  The status \<^verbatim>\<open>GET /api/strategies\<close> reports:
  \<^verbatim>\<open>strategyStatus.get(id) || 'ACTIVE'\<close>.
\<close>

definition status_of :: "state \<Rightarrow> string \<Rightarrow> status" where
  "status_of st i = (case strategyStatus st i of None \<Rightarrow> ACTIVE | Some v \<Rightarrow> v)"


section \<open>Sequences of requests\<close>

datatype request =
    DepositReq "deposit_body option" rat nat
  | PauseReq "string option"
  | ResumeReq "string option"

datatype reply = DepositReply "deposit_data response" | StrategyReply "unit response"

definition handle :: "state \<Rightarrow> request \<Rightarrow> reply \<times> state" where
  "handle st r = (case r of
       DepositReq body random now \<Rightarrow>
         (case deposit st body random now of (y, st') \<Rightarrow> (DepositReply y, st'))
     | PauseReq ident \<Rightarrow> (case pauseStrategy st ident of (y, st') \<Rightarrow> (StrategyReply y, st'))
     | ResumeReq ident \<Rightarrow> (case resumeStrategy st ident of (y, st') \<Rightarrow> (StrategyReply y, st')))"

text \<open>The server handles the requests one after the other.\<close>

fun run :: "state \<Rightarrow> request list \<Rightarrow> reply list \<times> state" where
  "run st [] = ([], st)"
| "run st (r # rs) =
     (case handle st r of (y, st') \<Rightarrow> (case run st' rs of (ys, st'') \<Rightarrow> (y # ys, st'')))"

text \<open>What a client sees of an account: its balance and allocation, those of a fresh
  account when there is none.\<close>

definition account_view :: "state \<Rightarrow> string \<Rightarrow> number \<times> allocation" where
  "account_view st who = (case investorStates st who of
       None \<Rightarrow> (Fin 0, STABLE)
     | Some a \<Rightarrow> (balance a, allocation a))"


section \<open>The ledger as the replies describe it\<close>

text \<open>
  The entries of one investor's ledger, read off the requests and their replies: for
  each successful deposit of the investor, the amount deposited, the fee the reply
  reports and the allocation the reply reports.
\<close>

fun ledger_entries ::
  "string \<Rightarrow> request list \<Rightarrow> reply list \<Rightarrow> (number \<times> number \<times> allocation) list" where
  "ledger_entries who (DepositReq body random now # rs) (DepositReply (Success d) # ys) =
     (if res_investor d = who
      then (deposit_amount body, feeCharged d, res_allocation d) # ledger_entries who rs ys
      else ledger_entries who rs ys)"
| "ledger_entries who (r # rs) (y # ys) = ledger_entries who rs ys"
| "ledger_entries who _ _ = []"

text \<open>
  One entry applied to a balance and an allocation: the amount is added; when the
  allocation changes, the fee is subtracted and the result is rounded to 8 decimals.
\<close>

definition ledger_step ::
  "number \<times> allocation \<Rightarrow> number \<times> number \<times> allocation \<Rightarrow> number \<times> allocation" where
  "ledger_step v e = (case v of (b, al) \<Rightarrow> (case e of (amount, fee, al') \<Rightarrow>
     (if al' \<noteq> al then Number_toFixed8 (num_sub (num_add b amount) fee)
      else num_add b amount, al')))"

text \<open>The fees that the successful deposits of a run report, in order.\<close>

fun fees_of :: "reply list \<Rightarrow> number list" where
  "fees_of [] = []"
| "fees_of (DepositReply (Success d) # ys) = feeCharged d # fees_of ys"
| "fees_of (y # ys) = fees_of ys"


text \<open>The running total of a list of fees as the handler accumulates it.\<close>

definition add_fee :: "number \<Rightarrow> number \<Rightarrow> number" where
  "add_fee sofar fee = Number_toFixed8 (num_add sofar fee)"

text \<open>
  The conservation property as the specification words it, on the exact values of the
  amounts, the fees and the final balance: equal when both sides are written with 8
  decimals.
\<close>

definition to_8_places :: "rat \<Rightarrow> int" where
  "to_8_places x = \<lfloor>x * 10 ^ 8 + 1 / 2\<rfloor>"

definition balance_conserved :: "rat list \<Rightarrow> rat list \<Rightarrow> rat \<Rightarrow> bool" where
  "balance_conserved deposits fees final =
     (to_8_places final = to_8_places (sum_list deposits - sum_list fees))"

text \<open>
  The fee as the specification words it, \<open>round(balance * 0.005, 8)\<close>: the exact product
  of the balance after the deposit and the rate, rounded to 8 decimals, half away from
  zero.
\<close>

definition round_8 :: "rat \<Rightarrow> rat" where
  "round_8 x = sgn x * of_int \<lfloor>\<bar>x\<bar> * 10 ^ 8 + 1 / 2\<rfloor> / 10 ^ 8"

definition decimal_fee :: "rat \<Rightarrow> rat" where
  "decimal_fee post = round_8 (post * (5 / 1000))"


section \<open>The values a ledger holds\<close>

text \<open>
  The numbers that occur as balances and fees: a non-negative binary64 value, the
  positive infinity, or NaN. The fee total is moreover a value that the rounding to 8
  decimals leaves as it is.
\<close>

definition ledger_value :: "number \<Rightarrow> bool" where
  "ledger_value v = (case v of
       NaN \<Rightarrow> True | PInf \<Rightarrow> True | NInf \<Rightarrow> False | Fin q \<Rightarrow> 0 \<le> q \<and> is_double q)"

definition total_value :: "number \<Rightarrow> bool" where
  "total_value v = (ledger_value v \<and> Number_toFixed8 v = v)"


definition state_ok :: "state \<Rightarrow> bool" where
  "state_ok st = ((\<forall>who a. investorStates st who = Some a \<longrightarrow> ledger_value (balance a)) \<and>
     total_value (platformTotalFees st))"


section \<open>Properties of the rounding\<close>

subsection \<open>The binary exponent\<close>

lemma ilog2_bounds:
  assumes "0 < q"
  shows "2 powi ilog2 q \<le> q \<and> q < 2 powi (ilog2 q + 1)"
proof -
  obtain n d where nd: "quotient_of q = (n, d)" by force
  have d: "0 < d" using quotient_of_denom_pos[OF nd] .
  have q: "q = of_int n / of_int d" using quotient_of_div[OF nd] .
  have n: "0 < n" using assms d by (simp add: q zero_less_divide_iff)
  define bn where "bn = bitlen n"
  define bd where "bd = bitlen d"
  define k where "k = bn - bd"
  have bn1: "1 \<le> bn" using n bitlen_eq_zero_iff[of n] bitlen_nonneg[of n] by (simp add: bn_def)
  have bd1: "1 \<le> bd" using d bitlen_eq_zero_iff[of d] bitlen_nonneg[of d] by (simp add: bd_def)
  have nlo: "(2::rat) powi (bn - 1) \<le> of_int n"
  proof -
    have "(2::int) ^ nat (bn - 1) \<le> n" using bitlen_bounds[OF n] by (simp add: bn_def)
    then have "rat_of_int (2 ^ nat (bn - 1)) \<le> of_int n" by (simp only: of_int_le_iff)
    then show ?thesis using bn1 by (simp add: power_int_nonneg_exp)
  qed
  have nhi: "of_int n < (2::rat) powi bn"
  proof -
    have "n < (2::int) ^ nat bn" using bitlen_bounds[OF n] by (simp add: bn_def)
    then have "rat_of_int n < of_int (2 ^ nat bn)" by (simp only: of_int_less_iff)
    then show ?thesis using bn1 by (simp add: power_int_nonneg_exp)
  qed
  have dlo: "(2::rat) powi (bd - 1) \<le> of_int d"
  proof -
    have "(2::int) ^ nat (bd - 1) \<le> d" using bitlen_bounds[OF d] by (simp add: bd_def)
    then have "rat_of_int (2 ^ nat (bd - 1)) \<le> of_int d" by (simp only: of_int_le_iff)
    then show ?thesis using bd1 by (simp add: power_int_nonneg_exp)
  qed
  have dhi: "of_int d < (2::rat) powi bd"
  proof -
    have "d < (2::int) ^ nat bd" using bitlen_bounds[OF d] by (simp add: bd_def)
    then have "rat_of_int d < of_int (2 ^ nat bd)" by (simp only: of_int_less_iff)
    then show ?thesis using bd1 by (simp add: power_int_nonneg_exp)
  qed
  have dpos: "(0::rat) < of_int d" using d by simp
  have npos: "(0::rat) < of_int n" using n by simp
  have hi: "q < 2 powi (k + 1)"
  proof -
    have "q < 2 powi bn / of_int d" unfolding q using nhi dpos by (simp add: divide_strict_right_mono)
    also have "\<dots> \<le> 2 powi bn / 2 powi (bd - 1)"
      using dlo dpos by (intro divide_left_mono) (simp_all add: zero_less_mult_iff)
    also have "\<dots> = 2 powi (k + 1)"
      by (simp add: k_def power_int_diff[symmetric] algebra_simps)
    finally show ?thesis .
  qed
  have lo: "2 powi (k - 1) \<le> q"
  proof -
    have "2 powi (k - 1) = 2 powi (bn - 1) / (2::rat) powi bd"
      by (simp add: k_def power_int_diff[symmetric] algebra_simps)
    also have "\<dots> \<le> of_int n / 2 powi bd" using nlo by (simp add: divide_right_mono)
    also have "\<dots> \<le> of_int n / of_int d"
      using dhi npos dpos by (intro divide_left_mono) (simp_all add: zero_less_mult_iff)
    finally show ?thesis by (simp add: q)
  qed
  have il: "ilog2 q = (if 2 powi k \<le> q then k else k - 1)"
    by (simp add: ilog2_def nd Let_def k_def bn_def bd_def)
  show ?thesis
  proof (cases "2 powi k \<le> q")
    case True
    then show ?thesis using hi il by simp
  next
    case False
    then show ?thesis using lo il by simp
  qed
qed

lemma powi2_less_cancel: "(2::rat) powi a < 2 powi b \<Longrightarrow> a < b"
  by (rule ccontr) (simp add: not_less power_int_increasing leD)

lemma ilog2_unique:
  assumes "0 < q" "2 powi k \<le> q" "q < 2 powi (k + 1)"
  shows "ilog2 q = k"
proof -
  have b: "2 powi ilog2 q \<le> q" "q < 2 powi (ilog2 q + 1)" using ilog2_bounds[OF assms(1)] by auto
  have "(2::rat) powi k < 2 powi (ilog2 q + 1)" using assms(2) b(2) by (rule le_less_trans)
  then have 1: "k < ilog2 q + 1" by (rule powi2_less_cancel)
  have "(2::rat) powi ilog2 q < 2 powi (k + 1)" using b(1) assms(3) by (rule le_less_trans)
  then have 2: "ilog2 q < k + 1" by (rule powi2_less_cancel)
  show ?thesis using 1 2 by simp
qed

lemma ilog2_mono:
  assumes "0 < q" "q \<le> r"
  shows "ilog2 q \<le> ilog2 r"
proof -
  have r: "0 < r" using assms by simp
  have "(2::rat) powi ilog2 q \<le> q" using ilog2_bounds[OF assms(1)] by simp
  also have "q \<le> r" by fact
  also have "r < 2 powi (ilog2 r + 1)" using ilog2_bounds[OF r] by simp
  finally have "ilog2 q < ilog2 r + 1" by (rule powi2_less_cancel)
  then show ?thesis by simp
qed


subsection \<open>Rounding to an integer\<close>

lemma rhe_of_int: "rhe (of_int m) = m"
  by (simp add: rhe_def)

lemma rhe_bounds: "\<bar>of_int (rhe y) - y\<bar> \<le> 1 / 2"
proof -
  have "of_int \<lfloor>y\<rfloor> \<le> y" "y < of_int \<lfloor>y\<rfloor> + 1" by linarith+
  then show ?thesis by (auto simp add: rhe_def Let_def)
qed

lemma rhe_tie_even: "\<bar>of_int (rhe y) - y\<bar> = 1 / 2 \<Longrightarrow> even (rhe y)"
proof -
  have "of_int \<lfloor>y\<rfloor> \<le> y" "y < of_int \<lfloor>y\<rfloor> + 1" by linarith+
  then show "\<bar>of_int (rhe y) - y\<bar> = 1 / 2 \<Longrightarrow> even (rhe y)"
    by (auto simp add: rhe_def Let_def split: if_splits)
qed

lemma rhe_nearest: "\<bar>of_int (rhe y) - y\<bar> \<le> \<bar>of_int k - y\<bar>"
proof (cases "k = rhe y")
  case True
  then show ?thesis by simp
next
  case False
  then have "1 \<le> \<bar>k - rhe y\<bar>" by simp
  then have "(1::rat) \<le> of_int \<bar>k - rhe y\<bar>" by (simp only: of_int_1_le_iff)
  then have "(1::rat) \<le> \<bar>of_int k - of_int (rhe y)\<bar>" by simp
  then show ?thesis using rhe_bounds[of y] by linarith
qed

lemma rhe_mono:
  assumes "y \<le> z"
  shows "rhe y \<le> rhe z"
proof (rule ccontr)
  assume "\<not> rhe y \<le> rhe z"
  then have lt: "rhe z + 1 \<le> rhe y" by simp
  then have "rat_of_int (rhe z + 1) \<le> of_int (rhe y)" by (simp only: of_int_le_iff)
  then have r: "rat_of_int (rhe z) + 1 \<le> of_int (rhe y)" by simp
  have yz: "y = z" "of_int (rhe y) - y = 1 / 2" "of_int (rhe z) - z = - (1 / 2)"
    using r rhe_bounds[of y] rhe_bounds[of z] assms by linarith+
  have "even (rhe y)" using yz(2) by (intro rhe_tie_even) simp
  moreover have "even (rhe z)" using yz(3) by (intro rhe_tie_even) simp
  moreover have "rat_of_int (rhe y) = of_int (rhe z) + 1" using yz by linarith
  then have "rat_of_int (rhe y) = of_int (rhe z + 1)" by simp
  then have "rhe y = rhe z + 1" by (simp only: of_int_eq_iff)
  ultimately show False by simp
qed

lemma rhe_eqI:
  assumes "\<bar>of_int m - y\<bar> \<le> 1 / 2" "\<bar>of_int m - y\<bar> = 1 / 2 \<Longrightarrow> even m"
  shows "rhe y = m"
proof (rule ccontr)
  assume ne: "rhe y \<noteq> m"
  then have "1 \<le> \<bar>m - rhe y\<bar>" by simp
  then have "(1::rat) \<le> of_int \<bar>m - rhe y\<bar>" by (simp only: of_int_1_le_iff)
  then have d: "(1::rat) \<le> \<bar>of_int m - of_int (rhe y)\<bar>" by simp
  have t: "\<bar>of_int m - y\<bar> = 1 / 2" "\<bar>of_int (rhe y) - y\<bar> = 1 / 2"
    using d assms(1) rhe_bounds[of y] by linarith+
  have "\<bar>rat_of_int m - of_int (rhe y)\<bar> = 1" using d t by linarith
  then have "rat_of_int \<bar>m - rhe y\<bar> = of_int 1" by simp
  then have "\<bar>m - rhe y\<bar> = 1" by (simp only: of_int_eq_iff)
  moreover have "even m" using assms(2) t(1) by simp
  moreover have "even (rhe y)" using t(2) by (rule rhe_tie_even)
  ultimately show False by presburger
qed

lemma rhe_unique: "\<bar>y - of_int m\<bar> < 1 / 2 \<Longrightarrow> rhe y = m"
  by (rule rhe_eqI) linarith+

lemma rhe_minus: "rhe (- y) = - rhe y"
proof (rule rhe_eqI)
  show "\<bar>rat_of_int (- rhe y) - - y\<bar> \<le> 1 / 2"
    using rhe_bounds[of y] by (simp add: abs_if split: if_splits)
  assume "\<bar>rat_of_int (- rhe y) - - y\<bar> = 1 / 2"
  then have "\<bar>of_int (rhe y) - y\<bar> = 1 / 2" by (simp add: abs_if split: if_splits)
  then show "even (- rhe y)" using rhe_tie_even by simp
qed

lemma rhe_nonneg: "0 \<le> y \<Longrightarrow> 0 \<le> rhe y"
  using rhe_mono[of 0 y] rhe_of_int[of 0] by simp

subsection \<open>The unit in the last place and the rounded value\<close>

lemma ex_minus: "ex (- q) = ex q"
  by (simp add: ex_def)

lemma ex_ge: "- 1074 \<le> ex q"
  by (simp add: ex_def)

lemma ex_upper: 
  assumes "0 < q"
  shows "q < 2 powi (ex q + 53)"
proof -
  have "q < 2 powi (ilog2 q + 1)" using ilog2_bounds[OF assms] by simp
  also have "\<dots> \<le> 2 powi (ex q + 53)"
    using assms by (intro power_int_increasing) (simp_all add: ex_def)
  finally show ?thesis .
qed

lemma ex_mono: "0 < q \<Longrightarrow> q \<le> r \<Longrightarrow> ex q \<le> ex r"
  using ilog2_mono[of q r] by (simp add: ex_def)

lemma rnd_minus: "rnd (- q) = - rnd q"
  by (simp add: rnd_def ex_minus rhe_minus)

lemma rnd_0: "rnd 0 = 0"
  by (simp add: rnd_def rhe_def)

lemma rnd_nonneg: "0 \<le> q \<Longrightarrow> 0 \<le> rnd q"
  by (simp add: rnd_def rhe_nonneg)

lemma abs_scale:
  fixes a p q :: rat
  assumes "0 < p"
  shows "\<bar>a * p - q\<bar> = \<bar>a - q / p\<bar> * p"
proof -
  have "a * p - q = (a - q / p) * p" using assms by (simp add: field_simps)
  then show ?thesis using assms by (simp add: abs_mult)
qed

lemma rnd_nearest_multiple: "\<bar>rnd q - q\<bar> \<le> \<bar>of_int k * 2 powi ex q - q\<bar>"
proof -
  define e where "e = ex q"
  define p where "p = (2::rat) powi e"
  have p: "0 < p" by (simp add: p_def)
  have "\<bar>rnd q - q\<bar> = \<bar>of_int (rhe (q / p)) - q / p\<bar> * p"
    using abs_scale[OF p] by (simp add: rnd_def e_def p_def)
  also have "\<dots> \<le> \<bar>of_int k - q / p\<bar> * p"
    using p rhe_nearest[of "q / p" k] by (simp add: mult_right_mono)
  also have "\<dots> = \<bar>of_int k * p - q\<bar>"
    using abs_scale[OF p] by simp
  finally show ?thesis by (simp add: p_def e_def)
qed

lemma rnd_error: "\<bar>rnd q - q\<bar> \<le> 2 powi ex q / 2"
proof -
  define p where "p = (2::rat) powi ex q"
  have p: "0 < p" by (simp add: p_def)
  have "\<bar>rnd q - q\<bar> = \<bar>of_int (rhe (q / p)) - q / p\<bar> * p"
    using abs_scale[OF p] by (simp add: rnd_def p_def)
  also have "\<dots> \<le> (1 / 2) * p"
    using p rhe_bounds[of "q / p"] by (intro mult_right_mono) simp_all
  finally show ?thesis by (simp add: p_def)
qed

lemma rnd_le_double: "0 \<le> q \<Longrightarrow> rnd q \<le> 2 * q"
  using rnd_nearest_multiple[of q 0] by simp

lemma rnd_multiple:
  assumes "q = of_int i * 2 powi ex q"
  shows "rnd q = q"
proof -
  have "q / 2 powi ex q = of_int i" using assms by (simp add: field_simps)
  then show ?thesis using assms by (simp add: rnd_def rhe_of_int)
qed


subsection \<open>Representable values, idempotence, monotonicity\<close>

lemma rnd_exact_pos:
  assumes m: "0 < m" "m < 2 ^ 53" and e: "- 1074 \<le> e"
  shows "rnd (of_int m * 2 powi e) = of_int m * 2 powi e"
proof -
  define q :: rat where "q = of_int m * 2 powi e"
  have qpos: "0 < q" using m by (simp add: q_def)
  have "rat_of_int m < of_int (2 ^ 53)" using m(2) by (simp only: of_int_less_iff)
  then have "q < 2 ^ 53 * 2 powi e" by (simp add: q_def)
  also have "\<dots> = 2 powi (53 + e)" by (simp add: power_int_add)
  finally have "(2::rat) powi ilog2 q < 2 powi (53 + e)"
    using ilog2_bounds[OF qpos] by simp
  then have "ilog2 q < 53 + e" by (rule powi2_less_cancel)
  then have le: "ex q \<le> e" using e qpos by (simp add: ex_def)
  define d where "d = nat (e - ex q)"
  have "(2::rat) powi e = 2 powi (int d + ex q)" using le by (simp add: d_def)
  also have "\<dots> = 2 ^ d * 2 powi ex q" by (simp add: power_int_add)
  finally have "q = of_int (m * 2 ^ d) * 2 powi ex q" by (simp add: q_def)
  then have "rnd q = q" by (rule rnd_multiple)
  then show ?thesis by (simp add: q_def)
qed

lemma rnd_exact:
  assumes m: "\<bar>m\<bar> \<le> 2 ^ 53" and e: "- 1074 \<le> e"
  shows "rnd (of_int m * 2 powi e) = of_int m * 2 powi e"
proof -
  have pos: "rnd (of_int k * 2 powi e) = of_int k * 2 powi e" if k: "0 < k" "k \<le> 2 ^ 53" for k
  proof (cases "k = 2 ^ 53")
    case True
    have "rat_of_int k * 2 powi e = of_int (2 ^ 52) * 2 powi (e + 1)"
      by (simp add: True power_int_add)
    moreover have "rnd (of_int (2 ^ 52) * 2 powi (e + 1)) = of_int (2 ^ 52) * 2 powi (e + 1)"
      using e by (intro rnd_exact_pos) simp_all
    ultimately show ?thesis by simp
  next
    case False
    then show ?thesis using k e by (intro rnd_exact_pos) simp_all
  qed
  consider "m = 0" | "0 < m" | "m < 0" by linarith
  then show ?thesis
  proof cases
    case 1
    then show ?thesis by (simp add: rnd_0)
  next
    case 2
    then show ?thesis using m by (intro pos) simp_all
  next
    case 3
    then have "rnd (of_int (- m) * 2 powi e) = of_int (- m) * 2 powi e"
      using m by (intro pos) simp_all
    then show ?thesis using rnd_minus[of "of_int m * 2 powi e"] by simp
  qed
qed

lemma rhe_scaled_le:
  assumes "0 < q"
  shows "rhe (q / 2 powi ex q) \<le> 2 ^ 53"
proof -
  have "q / 2 powi ex q < 2 powi (ex q + 53) / 2 powi ex q"
    using ex_upper[OF assms] by (simp add: divide_strict_right_mono)
  also have "\<dots> = of_int (2 ^ 53)" by (simp add: power_int_add)
  finally have "rhe (q / 2 powi ex q) \<le> rhe (of_int (2 ^ 53))"
    by (intro rhe_mono) simp
  then show ?thesis by (simp only: rhe_of_int)
qed

lemma rnd_idem: "rnd (rnd q) = rnd q"
proof -
  have pos: "rnd (rnd r) = rnd r" if r: "0 < r" for r
  proof -
    have "0 \<le> rhe (r / 2 powi ex r)" using r by (intro rhe_nonneg) simp
    then have "\<bar>rhe (r / 2 powi ex r)\<bar> \<le> 2 ^ 53" using rhe_scaled_le[OF r] by simp
    then have "rnd (of_int (rhe (r / 2 powi ex r)) * 2 powi ex r)
        = of_int (rhe (r / 2 powi ex r)) * 2 powi ex r"
      using ex_ge[of r] by (rule rnd_exact)
    then show ?thesis by (simp add: rnd_def[of r])
  qed
  consider "q = 0" | "0 < q" | "q < 0" by linarith
  then show ?thesis
  proof cases
    case 1
    then show ?thesis by (simp add: rnd_0)
  next
    case 2
    then show ?thesis by (rule pos)
  next
    case 3
    then have "rnd (rnd (- q)) = rnd (- q)" by (intro pos) simp
    then show ?thesis by (simp add: rnd_minus)
  qed
qed

lemma rnd_mono_pos:
  assumes q: "0 < q" and qr: "q \<le> r"
  shows "rnd q \<le> rnd r"
proof -
  have r: "0 < r" using q qr by simp
  have ee: "ex q \<le> ex r" using q qr by (rule ex_mono)
  show ?thesis
  proof (cases "ex q = ex r")
    case True
    have "q / 2 powi ex r \<le> r / 2 powi ex r" using qr by (simp add: divide_right_mono)
    then have "rhe (q / 2 powi ex r) \<le> rhe (r / 2 powi ex r)" by (rule rhe_mono)
    then have "rat_of_int (rhe (q / 2 powi ex r)) \<le> of_int (rhe (r / 2 powi ex r))"
      by (simp only: of_int_le_iff)
    then show ?thesis by (simp add: rnd_def True mult_right_mono)
  next
    case False
    then have lt: "ex q + 1 \<le> ex r" using ee by simp
    then have "- 1074 < ex r" using ex_ge[of q] by linarith
    then have er: "ex r = ilog2 r - 52" using r by (simp add: ex_def max_def split: if_splits)
    have "rat_of_int (rhe (q / 2 powi ex q)) \<le> of_int (2 ^ 53)"
      using rhe_scaled_le[OF q] by (simp only: of_int_le_iff)
    then have "rnd q \<le> of_int (2 ^ 53) * 2 powi ex q"
      by (simp add: rnd_def mult_right_mono)
    also have "\<dots> = 2 powi (52 + (ex q + 1))" by (simp add: power_int_add)
    also have "\<dots> \<le> 2 powi (52 + ex r)" using lt by (intro power_int_increasing) simp_all
    finally have a: "rnd q \<le> 2 powi (52 + ex r)" .
    have "(2::rat) powi (52 + ex r) \<le> r" using ilog2_bounds[OF r] by (simp add: er)
    then have "2 powi (52 + ex r) / 2 powi ex r \<le> r / 2 powi ex r"
      by (simp add: divide_right_mono)
    then have "rat_of_int (2 ^ 52) \<le> r / 2 powi ex r" by (simp add: power_int_add)
    then have "rhe (of_int (2 ^ 52)) \<le> rhe (r / 2 powi ex r)" by (rule rhe_mono)
    then have "2 ^ 52 \<le> rhe (r / 2 powi ex r)" by (simp only: rhe_of_int)
    then have "rat_of_int (2 ^ 52) \<le> of_int (rhe (r / 2 powi ex r))"
      by (simp only: of_int_le_iff)
    then have "of_int (2 ^ 52) * 2 powi ex r \<le> rnd r"
      by (simp add: rnd_def mult_right_mono)
    then have b: "2 powi (52 + ex r) \<le> rnd r" by (simp add: power_int_add)
    show ?thesis using a b by simp
  qed
qed

lemma rnd_mono:
  assumes "q \<le> r"
  shows "rnd q \<le> rnd r"
proof -
  consider "0 < q" | "q \<le> 0" "0 \<le> r" | "r < 0" using assms by linarith
  then show ?thesis
  proof cases
    case 1
    then show ?thesis using assms by (rule rnd_mono_pos)
  next
    case 2
    have "0 \<le> rnd (- q)" using 2(1) by (intro rnd_nonneg) simp
    then have "rnd q \<le> 0" by (simp add: rnd_minus)
    moreover have "0 \<le> rnd r" using 2(2) by (rule rnd_nonneg)
    ultimately show ?thesis by simp
  next
    case 3
    then have "rnd (- r) \<le> rnd (- q)" using assms by (intro rnd_mono_pos) simp_all
    then show ?thesis by (simp add: rnd_minus)
  qed
qed


subsection \<open>The rounded value is a nearest representable value\<close>

lemma rnd_nearest_pos:
  assumes q: "0 < q" and z: "rnd z = z"
  shows "\<bar>rnd q - q\<bar> \<le> \<bar>z - q\<bar>"
proof -
  consider "z \<le> 0" | "0 < z" "ex q \<le> ex z" | "0 < z" "ex z < ex q" by linarith
  then show ?thesis
  proof cases
    case 1
    have "\<bar>rnd q - q\<bar> \<le> \<bar>of_int 0 * 2 powi ex q - q\<bar>" by (rule rnd_nearest_multiple)
    then show ?thesis using 1 q by simp
  next
    case 2
    define d where "d = nat (ex z - ex q)"
    have "(2::rat) powi ex z = 2 powi (int d + ex q)" using 2(2) by (simp add: d_def)
    also have "\<dots> = 2 ^ d * 2 powi ex q" by (simp add: power_int_add)
    finally have "rnd z = of_int (rhe (z / 2 powi ex z) * 2 ^ d) * 2 powi ex q"
      by (simp add: rnd_def[of z])
    then have "z = of_int (rhe (z / 2 powi ex z) * 2 ^ d) * 2 powi ex q" using z by simp
    then show ?thesis using rnd_nearest_multiple[of q "rhe (z / 2 powi ex z) * 2 ^ d"] by simp
  next
    case 3
    have "- 1074 < ex q" using 3(2) ex_ge[of z] by linarith
    then have eq: "ex q = ilog2 q - 52" using q by (simp add: ex_def max_def split: if_splits)
    have "ilog2 z - 52 \<le> ex z" using 3(1) by (simp add: ex_def)
    then have il: "ilog2 z + 1 \<le> ilog2 q" using 3(2) eq by simp
    have "z < 2 powi (ilog2 z + 1)" using ilog2_bounds[OF 3(1)] by simp
    also have "\<dots> \<le> 2 powi ilog2 q" using il by (intro power_int_increasing) simp_all
    finally have zB: "z < 2 powi ilog2 q" .
    have Bq: "2 powi ilog2 q \<le> q" using ilog2_bounds[OF q] by simp
    have "(2::rat) powi ilog2 q = 2 powi (52 + ex q)" by (simp add: eq)
    also have "\<dots> = of_int (2 ^ 52) * 2 powi ex q" by (simp add: power_int_add)
    finally have B: "(2::rat) powi ilog2 q = of_int (2 ^ 52) * 2 powi ex q" .
    have "\<bar>rnd q - q\<bar> \<le> \<bar>of_int (2 ^ 52) * 2 powi ex q - q\<bar>" by (rule rnd_nearest_multiple)
    then have "\<bar>rnd q - q\<bar> \<le> \<bar>2 powi ilog2 q - q\<bar>" by (simp only: B)
    then show ?thesis using zB Bq by linarith
  qed
qed

lemma rnd_nearest:
  assumes z: "rnd z = z"
  shows "\<bar>rnd q - q\<bar> \<le> \<bar>z - q\<bar>"
proof -
  consider "q = 0" | "0 < q" | "q < 0" by linarith
  then show ?thesis
  proof cases
    case 1
    then show ?thesis by (simp add: rnd_0)
  next
    case 2
    then show ?thesis using z by (rule rnd_nearest_pos)
  next
    case 3
    have "rnd (- z) = - z" using z by (simp add: rnd_minus)
    then have "\<bar>rnd (- q) - - q\<bar> \<le> \<bar>- z - - q\<bar>" using 3 by (intro rnd_nearest_pos) simp_all
    then show ?thesis by (simp add: rnd_minus abs_if split: if_splits)
  qed
qed

subsection \<open>Binary64 values\<close>

lemma fl_cases:
  "fl q = (if 2 ^ 1024 \<le> rnd q then PInf else if rnd q \<le> - (2 ^ 1024) then NInf else Fin (rnd q))"
  by (simp add: fl_def Let_def)

lemma fl_Fin_iff: "fl q = Fin r \<longleftrightarrow> r = rnd q \<and> \<bar>rnd q\<bar> < 2 ^ 1024"
  by (auto simp add: fl_cases)

lemma is_double_iff: "is_double q \<longleftrightarrow> rnd q = q \<and> \<bar>q\<bar> < 2 ^ 1024"
  by (auto simp add: is_double_def fl_Fin_iff)

lemma fl_is_double: "fl q = Fin r \<Longrightarrow> is_double r"
  by (simp add: is_double_iff fl_Fin_iff rnd_idem)

lemma fl_double: "is_double q \<Longrightarrow> fl q = Fin q"
  by (simp add: is_double_def)

lemma is_double_0: "is_double 0"
  by (simp add: is_double_iff rnd_0)

lemma is_double_minus: "is_double (- q) = is_double q"
  by (auto simp add: is_double_iff rnd_minus)

lemma is_double_dyadic:
  assumes "\<bar>m\<bar> \<le> 2 ^ 53" "- 1074 \<le> e" "\<bar>of_int m * 2 powi e\<bar> < (2::rat) ^ 1024"
  shows "is_double (of_int m * 2 powi e)"
  using assms by (simp add: is_double_iff rnd_exact)

lemma is_double_int:
  assumes "\<bar>m\<bar> \<le> 2 ^ 53"
  shows "is_double (of_int m)"
proof -
  have "rat_of_int \<bar>m\<bar> \<le> of_int (2 ^ 53)" using assms by (simp only: of_int_le_iff)
  then have "\<bar>rat_of_int m\<bar> < 2 ^ 1024" by simp
  then show ?thesis using is_double_dyadic[of m 0] assms by simp
qed

lemma fl_minus: "fl (- q) = num_neg (fl q)"
  by (auto simp add: fl_cases rnd_minus num_neg_def)


lemma fl_nonneg: "0 \<le> q \<Longrightarrow> num_le (Fin 0) (fl q)"
  using rnd_nonneg[of q] by (auto simp add: fl_cases num_le_def)

lemma fl_le_double:
  assumes "q \<le> d" "is_double d" and that: "- d \<le> q"
  shows "\<exists>r. fl q = Fin r \<and> r \<le> d"
proof -
  have 1: "rnd q \<le> d" using rnd_mono[OF assms(1)] assms(2) by (simp add: is_double_iff)
  have "rnd (- d) \<le> rnd q" using that by (rule rnd_mono)
  then have 2: "- d \<le> rnd q" using assms(2) by (simp add: is_double_iff rnd_minus)
  have "\<bar>d\<bar> < 2 ^ 1024" using assms(2) by (simp add: is_double_iff)
  then have "\<bar>rnd q\<bar> < 2 ^ 1024" using 1 2 by linarith
  then show ?thesis using 1 by (simp add: fl_Fin_iff)
qed


subsection \<open>Rounding to 8 decimals\<close>

lemma rnd_multiple_of:
  assumes z: "rnd z = z" "0 < z" and k: "2 powi k \<le> z"
  shows "\<exists>B. z = of_int B * 2 powi (k - 52)"
proof -
  have "(2::rat) powi k < 2 powi (ilog2 z + 1)"
    using k ilog2_bounds[OF z(2)] by linarith
  then have "k < ilog2 z + 1" by (rule powi2_less_cancel)
  then have le: "k - 52 \<le> ex z" using z(2) by (simp add: ex_def)
  define d where "d = nat (ex z - (k - 52))"
  have "(2::rat) powi ex z = 2 powi (int d + (k - 52))" using le by (simp add: d_def)
  also have "\<dots> = 2 ^ d * 2 powi (k - 52)"
    using power_int_add[of "2::rat" "int d" "k - 52"] by simp
  finally have "rnd z = of_int (rhe (z / 2 powi ex z) * 2 ^ d) * 2 powi (k - 52)"
    by (simp add: rnd_def[of z])
  then show ?thesis using z(1) by (intro exI[of _ "rhe (z / 2 powi ex z) * 2 ^ d"]) simp
qed

lemma toFixed8_n_bounds:
  "of_int (toFixed8_n a) \<le> a * 10 ^ 8 + 1 / 2 \<and> a * 10 ^ 8 + 1 / 2 < of_int (toFixed8_n a) + 1"
  unfolding toFixed8_n_def by linarith

lemma toFixed8_n_nonneg: "0 \<le> a \<Longrightarrow> 0 \<le> toFixed8_n a"
  unfolding toFixed8_n_def by simp

lemma toFixed8_n_mono: "a \<le> b \<Longrightarrow> toFixed8_n a \<le> toFixed8_n b"
  unfolding toFixed8_n_def by (intro floor_mono) simp

lemma toFixed8_n_eqI:
  assumes "of_int n / 10 ^ 8 - 1 / (2 * 10 ^ 8) \<le> a" "a < of_int n / 10 ^ 8 + 1 / (2 * 10 ^ 8)"
  shows "toFixed8_n a = n"
  unfolding toFixed8_n_def using assms by (intro floor_unique) (simp_all add: field_simps)

lemma tf8_small:
  assumes "0 \<le> a" "a < 10 ^ 21"
  shows "Number_toFixed8 (Fin a) = fl (of_int (toFixed8_n a) / 10 ^ 8)"
  using assms by (simp add: Number_toFixed8_def)

lemma tf8_big: "10 ^ 21 \<le> a \<Longrightarrow> Number_toFixed8 (Fin a) = Fin a"
  by (simp add: Number_toFixed8_def)

lemma tf8_small_finite:
  assumes a: "0 \<le> a" "a < 10 ^ 21"
  shows "\<exists>r. Number_toFixed8 (Fin a) = Fin r \<and> 0 \<le> r \<and> r = rnd (of_int (toFixed8_n a) / 10 ^ 8)"
proof -
  define q :: rat where "q = of_int (toFixed8_n a) / 10 ^ 8"
  have n0: "(0::rat) \<le> of_int (toFixed8_n a)" using toFixed8_n_nonneg[OF a(1)] by simp
  then have q0: "0 \<le> q" by (simp add: q_def)
  have "of_int (toFixed8_n a) \<le> a * 10 ^ 8 + 1 / 2" using toFixed8_n_bounds[of a] by simp
  then have "q \<le> a + 1 / 200000000" by (simp add: q_def field_simps)
  moreover have "a < 1000000000000000000000" using a(2) by simp
  ultimately have "q \<le> 1180591620717411303424" by linarith
  then have qle: "q \<le> of_int (2 ^ 70)" by simp
  have d: "is_double (of_int (2 ^ 70))" using is_double_dyadic[of 1 70] by simp
  have "- rat_of_int (2 ^ 70) \<le> q" using q0 by simp
  with qle d obtain r where r: "fl q = Fin r" "r \<le> of_int (2 ^ 70)" using fl_le_double by blast
  have "r = rnd q" using r(1) by (simp add: fl_Fin_iff)
  moreover have "0 \<le> rnd q" using q0 by (rule rnd_nonneg)
  ultimately show ?thesis using r(1) tf8_small[OF a] by (simp add: q_def)
qed


lemma no_dyadic_hundred_millionth:
  assumes "rat_of_int A * 2 powi (- 26) - of_int B * 2 powi (- 27) = 1 / 10 ^ 8"
  shows False
proof -
  have p: "(2::rat) powi (- 26) = 1 / 67108864" "(2::rat) powi (- 27) = 1 / 134217728"
    by (simp_all add: power_int_minus_divide)
  have "rat_of_int A / 67108864 - of_int B / 134217728 = 1 / 100000000"
    using assms unfolding p by simp
  then have "rat_of_int A * 200000000 - of_int B * 100000000 = 134217728" by linarith
  then have "rat_of_int (100000000 * (2 * A - B)) = of_int 134217728" by simp
  then have "100000000 * (2 * A - B) = 134217728" by (simp only: of_int_eq_iff)
  then have "(100000000::int) dvd 134217728" by (metis dvd_triv_left)
  then show False by simp
qed


lemma tf8_fixed_of_rounded:
  assumes z: "is_double z" "0 \<le> z" "z < 10 ^ 21"
  defines "q \<equiv> of_int (toFixed8_n z) / 10 ^ 8"
  shows "toFixed8_n (rnd q) = toFixed8_n z"
proof -
  define n where "n = toFixed8_n z"
  define h :: rat where "h = 1 / (2 * 10 ^ 8)"
  have q: "q = of_int n / 10 ^ 8" by (simp add: q_def n_def)
  have rz: "rnd z = z" using z(1) by (simp add: is_double_iff)
  have n0: "(0::rat) \<le> of_int n" using toFixed8_n_nonneg[OF z(2)] by (simp add: n_def)
  then have q0: "0 \<le> q" by (simp add: q)
  have zb: "q - h \<le> z" "z < q + h"
    using toFixed8_n_bounds[of z] by (simp_all add: q n_def h_def field_simps)
  have near: "\<bar>rnd q - q\<bar> \<le> \<bar>z - q\<bar>" using rz by (rule rnd_nearest)
  have lo: "q - h \<le> rnd q" using near zb by linarith
  have hi: "rnd q \<le> q + h" using near zb by linarith
  have ne: "rnd q \<noteq> q + h"
  proof
    assume eq: "rnd q = q + h"
    then have zq: "z = q - h" using near zb by linarith
    have hpos: "0 < h" by (simp add: h_def)
    have "h \<le> 2 powi ex q / 2" using rnd_error[of q] eq by simp
    then have big: "1 / 10 ^ 8 \<le> (2::rat) powi ex q" by (simp add: h_def)
    have e26: "- 26 \<le> ex q"
    proof (rule ccontr)
      assume "\<not> - 26 \<le> ex q"
      then have "ex q \<le> - 27" by simp
      then have "(2::rat) powi ex q \<le> 2 powi (- 27)" by (intro power_int_increasing) simp_all
      then show False using big by (simp add: power_int_minus)
    qed
    have qpos: "0 < q" using q0 eq hpos rnd_0 by (cases "q = 0") auto
    have exq: "ex q = ilog2 q - 52" using e26 qpos by (simp add: ex_def max_def split: if_splits)
    have "(2::rat) powi 26 \<le> 2 powi ilog2 q" using e26 exq by (intro power_int_increasing) simp_all
    then have q26: "2 powi 26 \<le> q" using ilog2_bounds[OF qpos] by linarith
    have rq: "rnd (rnd q) = rnd q" by (rule rnd_idem)
    have "0 < rnd q" using eq qpos hpos by simp
    moreover have "2 powi 26 \<le> rnd q" using q26 eq hpos by simp
    ultimately obtain A where A: "rnd q = of_int A * 2 powi (26 - 52)"
      using rnd_multiple_of[OF rq] by blast
    have z25: "2 powi 25 \<le> z" using q26 zq by (simp add: h_def)
    then have "0 < z" by (simp add: less_le_trans[of 0 "2 powi 25"])
    then obtain B where B: "z = of_int B * 2 powi (25 - 52)"
      using rnd_multiple_of[OF rz _ z25] by blast
    have "rnd q - z = 1 / 10 ^ 8" using eq zq by (simp add: h_def)
    then have "rat_of_int A * 2 powi (- 26) - of_int B * 2 powi (- 27) = 1 / 10 ^ 8"
      using A B by simp
    then show False by (rule no_dyadic_hundred_millionth)
  qed
  have "rnd q < q + h" using hi ne by simp
  then show ?thesis using lo unfolding n_def[symmetric]
    by (intro toFixed8_n_eqI) (simp_all add: q h_def)
qed

lemma tf8_idem:
  assumes z: "is_double z" "0 \<le> z"
  shows "Number_toFixed8 (Number_toFixed8 (Fin z)) = Number_toFixed8 (Fin z)"
proof (cases "z < 10 ^ 21")
  case False
  then show ?thesis by (simp add: tf8_big)
next
  case True
  define q :: rat where "q = of_int (toFixed8_n z) / 10 ^ 8"
  obtain r where r: "Number_toFixed8 (Fin z) = Fin r" "0 \<le> r" "r = rnd q"
    using tf8_small_finite[OF z(2) True] by (auto simp add: q_def)
  have flq: "fl q = Fin r" using r(1) tf8_small[OF z(2) True] by (simp add: q_def)
  show ?thesis
  proof (cases "r < 10 ^ 21")
    case False
    then show ?thesis by (simp add: r(1) tf8_big)
  next
    case rs: True
    have "toFixed8_n r = toFixed8_n z"
      using tf8_fixed_of_rounded[OF z(1,2) True] by (simp add: r(3) q_def)
    then have "Number_toFixed8 (Fin r) = fl q" using tf8_small[OF r(2) rs] by (simp add: q_def)
    then show ?thesis by (simp add: r(1) flq)
  qed
qed


section \<open>The deposit handler\<close>

lemma fl_int: "\<bar>m\<bar> \<le> 2 ^ 53 \<Longrightarrow> fl (of_int m) = Fin (of_int m)"
  by (rule fl_double) (rule is_double_int)

lemma fl_1000: "fl 1000 = Fin 1000" using fl_int[of 1000] by simp
lemma fl_0: "fl 0 = Fin 0" using fl_int[of 0] by simp


text \<open>Where the conversion of the amount throws, the number carried for it is NaN.\<close>

lemma ToPrimitive_throws_NaN: "ToPrimitive_throws x \<Longrightarrow> element_number x = NaN"
  by (induction x rule: element_number.induct) simp_all

lemma Number_nullish0_throws_NaN: "Number_nullish0_throws v \<Longrightarrow> Number_nullish0 v = NaN"
proof (cases v)
  case None
  assume "Number_nullish0_throws v"
  then show ?thesis using None by (simp add: Number_nullish0_throws_def)
next
  case (Some x)
  assume "Number_nullish0_throws v"
  then have t: "ToPrimitive_throws x" using Some by (simp add: Number_nullish0_throws_def)
  show ?thesis using t ToPrimitive_throws_NaN[OF t] Some
    by (cases x) (simp_all add: Number_nullish0_def)
qed

lemma deposit_valid_returns: "\<not> deposit_invalid body \<Longrightarrow> \<not> deposit_amount_throws body"
  using Number_nullish0_throws_NaN[of "Option.bind body req_amount"]
  by (auto simp add: deposit_invalid_def deposit_amount_throws_def deposit_amount_def
      isFinite_def)

lemma deposit_invalid_request:
  "deposit_invalid (deposit_request who sid amt asset) \<longleftrightarrow>
     who = [] \<or> sid = [] \<or> \<not> isFinite (Number_nullish0 amt) \<or> num_le (Number_nullish0 amt) (Fin 0)"
  by (simp add: deposit_invalid_def deposit_request_def falsy_def deposit_amount_def)

lemma deposit_request_valid:
  assumes "\<not> deposit_invalid (deposit_request who sid amt asset)"
  shows "deposit st (deposit_request who sid amt asset) random now =
       apply_deposit st who sid (Number_nullish0 amt) asset random now"
proof -
  have "deposit st (deposit_request who sid amt asset) random now =
      (case (Option.bind (deposit_request who sid amt asset) req_investor,
             Option.bind (deposit_request who sid amt asset) req_strategyId) of
         (Some w, Some i) \<Rightarrow>
           apply_deposit st w i (deposit_amount (deposit_request who sid amt asset))
             (Option.bind (deposit_request who sid amt asset) req_asset) random now
       | _ \<Rightarrow> (ValidationFailed, st))"
    using assms deposit_valid_returns[OF assms] by (simp add: deposit_def)
  then show ?thesis by (simp add: deposit_request_def deposit_amount_def)
qed


lemma deposit_rejects:
  "\<not> deposit_amount_throws body \<Longrightarrow> deposit_invalid body \<Longrightarrow>
     deposit st body random now = (ValidationFailed, st)"
  by (simp add: deposit_def)

lemma deposit_throws:
  "deposit_amount_throws body \<Longrightarrow> deposit st body random now = (InternalFailure, st)"
  by (simp add: deposit_def)




lemma deposit_valid_fields:
  assumes "\<not> deposit_invalid body"
  shows "\<exists>who sid. Option.bind body req_investor = Some who \<and>
     Option.bind body req_strategyId = Some sid \<and> who \<noteq> [] \<and> sid \<noteq> []"
  using assms by (auto simp add: deposit_invalid_def falsy_def split: option.splits)

lemma deposit_valid:
  assumes "\<not> deposit_invalid body" "Option.bind body req_investor = Some who"
    "Option.bind body req_strategyId = Some sid"
  shows "deposit st body random now =
     apply_deposit st who sid (deposit_amount body) (Option.bind body req_asset) random now"
  using assms deposit_valid_returns[OF assms(1)] by (simp add: deposit_def)

text \<open>The handler's update with every field of the result written out.\<close>

lemma apply_deposit_eq:
  "apply_deposit st who sid amount asset random now =
    (let post = post_balance st who sid amount;
         sw = switches st who sid random;
         fee = (if sw then Number_toFixed8 (num_mul post feeRate) else Fin 0);
         nb = (if sw then Number_toFixed8 (num_sub post fee) else post);
         tot = (if sw then Number_toFixed8 (num_add (platformTotalFees st) fee)
                else platformTotalFees st)
     in (Success \<lparr>res_investor = who, res_strategyId = sid,
                   res_asset = (case asset of None \<Rightarrow> ''XLM''
                                | Some a \<Rightarrow> if a = [] then ''XLM'' else a),
                   newBalance = nb, res_allocation = decideAllocation random,
                   feeCharged = fee, res_platformTotalFees = tot, simulated = True,
                   decidedAt = now\<rparr>,
         st\<lparr>investorStates := (investorStates st)(who \<mapsto>
               \<lparr>strategyId = sid, balance = nb, allocation = decideAllocation random,
                lastDecisionAt = now\<rparr>),
            platformTotalFees := tot\<rparr>))"
  by (cases st; cases "current_account st who sid")
     (simp add: apply_deposit_def Let_def post_balance_def switches_def)




text \<open>
  Claim C7 (lazy account creation). When a valid deposit names an investor with no
  record, the handler works on a fresh account of the request's strategy with balance 0,
  allocation STABLE and decision time 0 (the epoch): the deposit has exactly the result
  it has on the state that already holds this fresh account, so the amount is added to 0
  and the decision is compared with STABLE. After the deposit the investor has a record.
\<close>

theorem lazy_account_creation:
  assumes "investorStates st who = None"
    and "\<not> deposit_invalid (deposit_request who sid amt asset)"
  shows "current_account st who sid =
           \<lparr>strategyId = sid, balance = Fin 0, allocation = STABLE, lastDecisionAt = 0\<rparr> \<and>
         deposit st (deposit_request who sid amt asset) random now =
           deposit (st\<lparr>investorStates := (investorStates st)(who \<mapsto>
                \<lparr>strategyId = sid, balance = Fin 0, allocation = STABLE, lastDecisionAt = 0\<rparr>)\<rparr>)
             (deposit_request who sid amt asset) random now \<and>
         post_balance st who sid (Number_nullish0 amt) = num_add (Fin 0) (Number_nullish0 amt) \<and>
         switches st who sid random = (decideAllocation random \<noteq> STABLE) \<and>
         investorStates (snd (deposit st (deposit_request who sid amt asset) random now)) who
           \<noteq> None"
  using assms
  by (auto simp add: deposit_request_valid apply_deposit_eq Let_def post_balance_def
      switches_def current_account_def)

theorem lazy_account_creation_witness:
  "investorStates initial_state ''inv1'' = None \<and>
   \<not> deposit_invalid (deposit_request ''inv1'' ''grid-1'' (Some (JNum 1000)) None) \<and>
   current_account initial_state ''inv1'' ''grid-1'' =
     \<lparr>strategyId = ''grid-1'', balance = Fin 0, allocation = STABLE, lastDecisionAt = 0\<rparr> \<and>
   switches initial_state ''inv1'' ''grid-1'' (3 / 4) = (decideAllocation (3 / 4) \<noteq> STABLE) \<and>
   investorStates (snd (deposit initial_state
       (deposit_request ''inv1'' ''grid-1'' (Some (JNum 1000)) None) (3 / 4) 5)) ''inv1'' \<noteq> None"
proof -
  have a: "investorStates initial_state ''inv1'' = None" by (simp add: initial_state_def)
  have b: "\<not> deposit_invalid (deposit_request ''inv1'' ''grid-1'' (Some (JNum 1000)) None)"
    by (simp add: deposit_invalid_request Number_nullish0_def fl_1000 isFinite_def num_le_def)
  note t = lazy_account_creation[OF a b, of "3 / 4" 5]
  show ?thesis
    using a b t by blast
qed


section \<open>The strategy handlers\<close>

text \<open>
  Claim C8 (pause and resume). For a non-empty id: pausing twice in a row leaves the
  status PAUSED and gives the same state as pausing once; resuming an id that was never
  set gives status ACTIVE. With the id missing or empty both handlers return the
  validation error and leave the state as it is. Neither handler, whatever the id,
  changes an investor record or the fee total.
\<close>

theorem pause_resume_semantics:
  assumes "ident \<noteq> []"
  shows "status_of (snd (pauseStrategy (snd (pauseStrategy st (Some ident))) (Some ident))) ident
           = PAUSED \<and>
         pauseStrategy (snd (pauseStrategy st (Some ident))) (Some ident)
           = pauseStrategy st (Some ident) \<and>
         status_of (snd (resumeStrategy (st\<lparr>strategyStatus := (strategyStatus st)(ident := None)\<rparr>)
             (Some ident))) ident = ACTIVE \<and>
         status_of (snd (resumeStrategy st (Some ident))) ident = ACTIVE \<and>
         pauseStrategy st None = (ValidationFailed, st) \<and>
         pauseStrategy st (Some []) = (ValidationFailed, st) \<and>
         resumeStrategy st None = (ValidationFailed, st) \<and>
         resumeStrategy st (Some []) = (ValidationFailed, st) \<and>
         investorStates (snd (pauseStrategy st x)) = investorStates st \<and>
         platformTotalFees (snd (pauseStrategy st x)) = platformTotalFees st \<and>
         investorStates (snd (resumeStrategy st x)) = investorStates st \<and>
         platformTotalFees (snd (resumeStrategy st x)) = platformTotalFees st"
  using assms
  by (auto simp add: pauseStrategy_def resumeStrategy_def status_of_def split: option.splits)

theorem pause_resume_semantics_witness:
  "''s1'' \<noteq> [] \<and>
   status_of (snd (pauseStrategy (snd (pauseStrategy initial_state (Some ''s1''))) (Some ''s1'')))
     ''s1'' = PAUSED \<and>
   status_of (snd (resumeStrategy initial_state (Some ''s1''))) ''s1'' = ACTIVE \<and>
   pauseStrategy initial_state None = (ValidationFailed, initial_state)"
proof -
  have a: "''s1'' \<noteq> []" by simp
  note t = pause_resume_semantics[OF a, of initial_state]
  show ?thesis using a t by blast
qed

section \<open>The amount of a deposit\<close>




section \<open>The arithmetic of the ledger\<close>

lemma is_double_pow2:
  assumes "- 1074 \<le> k" "k < 1024"
  shows "is_double (2 powi k)"
proof -
  have "(2::rat) powi k < 2 powi 1024" using assms(2) by (intro power_int_strict_increasing) simp_all
  then have "\<bar>rat_of_int 1 * 2 powi k\<bar> < 2 ^ 1024" by simp
  then show ?thesis using is_double_dyadic[of 1 k] assms(1) by simp
qed

lemma is_double_bounds: "is_double q \<Longrightarrow> \<bar>q\<bar> < 2 ^ 1024"
  by (simp add: is_double_iff)

lemma is_double_rnd: "is_double q \<Longrightarrow> rnd q = q"
  by (simp add: is_double_iff)

text \<open>A value between 0 and a binary64 value rounds to a binary64 value in the same range.\<close>

lemma fl_between:
  assumes "0 \<le> q" "q \<le> d" "is_double d"
  shows "\<exists>r. fl q = Fin r \<and> 0 \<le> r \<and> r \<le> d \<and> is_double r"
proof -
  have "- d \<le> q" using assms by linarith
  with assms obtain r where r: "fl q = Fin r" "r \<le> d" using fl_le_double by blast
  have "r = rnd q" using r(1) by (simp add: fl_Fin_iff)
  then have "0 \<le> r" using rnd_nonneg[OF assms(1)] by simp
  then show ?thesis using r fl_is_double[OF r(1)] by blast
qed

lemma fl_ge:
  assumes "d \<le> q" "is_double d" "fl q = Fin r"
  shows "d \<le> r"
proof -
  have "rnd d \<le> rnd q" using assms(1) by (rule rnd_mono)
  then show ?thesis using assms(2,3) by (simp add: is_double_iff fl_Fin_iff)
qed

lemma feeRate_bounds: "\<exists>c. feeRate = Fin c \<and> 1 / 256 \<le> c \<and> c \<le> 1 / 100 \<and> is_double c"
proof -
  have d: "is_double (1 / 128)" using is_double_pow2[of "- 7"] by (simp add: power_int_minus_divide)
  have "(0::rat) \<le> 5 / 1000" "(5::rat) / 1000 \<le> 1 / 128" by simp_all
  then obtain c where c: "fl (5 / 1000) = Fin c" "0 \<le> c" "is_double c"
    using fl_between[OF _ _ d] by blast
  have "c = rnd (5 / 1000)" using c(1) by (simp add: fl_Fin_iff)
  then have up: "c \<le> 1 / 100" using rnd_le_double[of "5 / 1000"] by simp
  have e: "is_double (1 / 256)" using is_double_pow2[of "- 8"] by (simp add: power_int_minus_divide)
  have "(1::rat) / 256 \<le> 5 / 1000" by simp
  then have "1 / 256 \<le> c" using e c(1) by (rule fl_ge)
  then show ?thesis using c up by (simp add: feeRate_def)
qed

lemma decideAllocation_invested: "decideAllocation (3 / 4) = INVESTED"
proof -
  have a: "fl (3 / 4) = Fin (3 / 4)"
    using fl_double[OF is_double_dyadic[of 3 "- 2"]] by (simp add: power_int_minus_divide)
  have b: "fl (1 / 4) = Fin (1 / 4)"
    using fl_double[OF is_double_pow2[of "- 2"]] by (simp add: power_int_minus_divide)
  show ?thesis
    by (simp add: decideAllocation_def a num_sub_def num_neg_def num_add_def b num_lt_def)
qed

lemma decideAllocation_stable: "decideAllocation (1 / 4) = STABLE"
proof -
  have a: "fl (1 / 4) = Fin (1 / 4)"
    using fl_double[OF is_double_pow2[of "- 2"]] by (simp add: power_int_minus_divide)
  have b: "fl (- (1 / 4)) = Fin (- (1 / 4))" using a by (simp add: fl_minus num_neg_def)
  show ?thesis
    using b by (simp add: decideAllocation_def a num_sub_def num_neg_def num_add_def num_lt_def)
qed

subsection \<open>Rounding to 8 decimals, in ranges\<close>

lemma tf8_zero:
  assumes "0 \<le> a" "a < 1 / (2 * 10 ^ 8)"
  shows "Number_toFixed8 (Fin a) = Fin 0"
proof -
  have "toFixed8_n a = 0" using assms by (intro toFixed8_n_eqI) simp_all
  moreover have "a < 10 ^ 21" using assms(2) by simp
  ultimately show ?thesis using tf8_small[OF assms(1)] by (simp add: fl_0)
qed

lemma tf8_value:
  assumes "0 \<le> a"
  shows "\<exists>r. Number_toFixed8 (Fin a) = Fin r \<and> 0 \<le> r \<and> (is_double a \<longrightarrow> is_double r)"
proof (cases "a < 10 ^ 21")
  case True
  obtain r where r: "Number_toFixed8 (Fin a) = Fin r" "0 \<le> r"
    using tf8_small_finite[OF assms True] by blast
  have "fl (of_int (toFixed8_n a) / 10 ^ 8) = Fin r" using r(1) tf8_small[OF assms True] by simp
  then have "is_double r" by (rule fl_is_double)
  then show ?thesis using r by blast
next
  case False
  then show ?thesis using assms by (simp add: tf8_big)
qed

text \<open>The rounding to 8 decimals does not pass a whole number of hundred-millionths
  that is a binary64 value.\<close>

lemma tf8_le_grid:
  assumes a: "0 \<le> a" "a \<le> of_int k / 10 ^ 8" and k: "is_double (of_int k / 10 ^ 8)"
    "of_int k / 10 ^ 8 < (10::rat) ^ 21"
  shows "\<exists>r. Number_toFixed8 (Fin a) = Fin r \<and> 0 \<le> r \<and> r \<le> of_int k / 10 ^ 8"
proof -
  have s: "a < 10 ^ 21" using a(2) k(2) by linarith
  have "toFixed8_n (of_int k / 10 ^ 8) = k" by (intro toFixed8_n_eqI) simp_all
  then have "toFixed8_n a \<le> k" using toFixed8_n_mono[OF a(2)] by simp
  then have "rat_of_int (toFixed8_n a) \<le> of_int k" by (simp only: of_int_le_iff)
  then have le: "of_int (toFixed8_n a) / 10 ^ 8 \<le> rat_of_int k / 10 ^ 8" by (simp add: divide_right_mono)
  have "(0::rat) \<le> of_int (toFixed8_n a)" using toFixed8_n_nonneg[OF a(1)] by simp
  then have "(0::rat) \<le> of_int (toFixed8_n a) / 10 ^ 8" by simp
  then obtain r where "fl (of_int (toFixed8_n a) / 10 ^ 8) = Fin r" "0 \<le> r" "r \<le> of_int k / 10 ^ 8"
    using fl_between[OF _ le k(1)] by blast
  then show ?thesis using tf8_small[OF a(1) s] by simp
qed

lemma tf8_ge_grid:
  assumes a: "of_int k / 10 ^ 8 \<le> a" "a < 10 ^ 21" and k: "is_double (of_int k / 10 ^ 8)" "0 \<le> k"
    and r: "Number_toFixed8 (Fin a) = Fin r"
  shows "of_int k / 10 ^ 8 \<le> r"
proof -
  have k0: "(0::rat) \<le> of_int k / 10 ^ 8" using k(2) by simp
  then have a0: "0 \<le> a" using a(1) by linarith
  have "toFixed8_n (of_int k / 10 ^ 8) = k" by (intro toFixed8_n_eqI) simp_all
  then have "k \<le> toFixed8_n a" using toFixed8_n_mono[OF a(1)] by simp
  then have "rat_of_int k \<le> of_int (toFixed8_n a)" by (simp only: of_int_le_iff)
  then have le: "rat_of_int k / 10 ^ 8 \<le> of_int (toFixed8_n a) / 10 ^ 8" by (simp add: divide_right_mono)
  have "fl (of_int (toFixed8_n a) / 10 ^ 8) = Fin r" using r tf8_small[OF a0 a(2)] by simp
  then show ?thesis using fl_ge[OF le k(1)] by simp
qed


subsection \<open>The values of the ledger are kept\<close>

lemma ledger_value_add:
  assumes "ledger_value x" "ledger_value y"
  shows "ledger_value (num_add x y)"
proof (cases x)
  case (Fin a)
  show ?thesis
  proof (cases y)
    case y: (Fin b)
    have ab: "0 \<le> a + b" using assms Fin y by (simp add: ledger_value_def)
    have "num_le (Fin 0) (fl (a + b))" using ab by (rule fl_nonneg)
    then show ?thesis
      using Fin y fl_is_double[of "a + b"]
      by (cases "fl (a + b)") (simp_all add: num_add_def ledger_value_def num_le_def)
  qed (use assms Fin in \<open>simp_all add: num_add_def ledger_value_def\<close>)
qed (use assms in \<open>auto simp add: num_add_def ledger_value_def split: number.splits\<close>)

lemma fee_le:
  assumes s: "is_double s" "0 \<le> s"
  shows "\<exists>f. Number_toFixed8 (num_mul (Fin s) feeRate) = Fin f \<and> 0 \<le> f \<and> f \<le> s \<and> is_double f"
proof -
  obtain c where c: "feeRate = Fin c" "1 / 256 \<le> c" "c \<le> 1 / 100" "is_double c"
    using feeRate_bounds by blast
  have c0: "0 \<le> c" using c(2) by linarith
  have sc0: "0 \<le> s * c" using s(2) c0 by simp
  have "s * c \<le> s * 1" using s(2) c(3) by (intro mult_left_mono) simp_all
  then have scs: "s * c \<le> s" by simp
  obtain x where x: "fl (s * c) = Fin x" "0 \<le> x" "x \<le> s" "is_double x"
    using fl_between[OF sc0 scs s(1)] by blast
  have "x = rnd (s * c)" using x(1) by (simp add: fl_Fin_iff)
  then have "x \<le> 2 * (s * c)" using rnd_le_double[OF sc0] by simp
  also have "\<dots> \<le> 2 * (s * (1 / 100))" using s(2) c(3) by (intro mult_left_mono) simp_all
  finally have x50: "x \<le> s / 50" by simp
  have m: "num_mul (Fin s) feeRate = Fin x" by (simp add: num_mul_def c(1) x(1))
  show ?thesis
  proof (cases "x < 10 ^ 21")
    case False
    then show ?thesis using m x by (simp add: tf8_big)
  next
    case True
    define q :: rat where "q = of_int (toFixed8_n x) / 10 ^ 8"
    have n0: "0 \<le> toFixed8_n x" using x(2) by (rule toFixed8_n_nonneg)
    then have q0: "0 \<le> q" by (simp add: q_def)
    have qs: "q \<le> s"
    proof (cases "toFixed8_n x = 0")
      case True
      then show ?thesis using s(2) by (simp add: q_def)
    next
      case False
      then have "1 \<le> toFixed8_n x" using n0 by simp
      then have "(1::rat) \<le> of_int (toFixed8_n x)" by (simp only: of_int_1_le_iff)
      moreover have "of_int (toFixed8_n x) \<le> x * 10 ^ 8 + 1 / 2" using toFixed8_n_bounds[of x] by simp
      ultimately have "1 / 200000000 \<le> x" "q \<le> x + 1 / 200000000"
        by (simp_all add: q_def field_simps)
      then have "q \<le> 2 * x" by linarith
      then show ?thesis using x50 s(2) by linarith
    qed
    obtain f where "fl q = Fin f" "0 \<le> f" "f \<le> s" "is_double f"
      using fl_between[OF q0 qs s(1)] by blast
    then show ?thesis using m tf8_small[OF x(2) True] by (simp add: q_def)
  qed
qed

lemma ledger_value_fee:
  assumes "ledger_value post"
  shows "ledger_value (Number_toFixed8 (num_mul post feeRate))"
proof -
  obtain c where c: "feeRate = Fin c" "1 / 256 \<le> c" using feeRate_bounds by blast
  have c0: "0 < c" using c(2) by linarith
  show ?thesis
  proof (cases post)
    case (Fin s)
    then have s: "is_double s" "0 \<le> s" using assms by (simp_all add: ledger_value_def)
    show ?thesis using fee_le[OF s] Fin by (auto simp add: ledger_value_def)
  next
    case PInf
    then show ?thesis using c0
      by (simp add: num_mul_def c(1) inf_of_sign_def Number_toFixed8_def ledger_value_def)
  qed (use assms in \<open>simp_all add: num_mul_def Number_toFixed8_def ledger_value_def\<close>)
qed

lemma ledger_value_round:
  assumes "ledger_value v"
  shows "total_value (Number_toFixed8 v)"
proof (cases v)
  case (Fin a)
  then have a: "is_double a" "0 \<le> a" using assms by (simp_all add: ledger_value_def)
  obtain r where r: "Number_toFixed8 (Fin a) = Fin r" "0 \<le> r" "is_double r"
    using tf8_value[OF a(2)] a(1) by blast
  show ?thesis using r tf8_idem[OF a] Fin by (simp add: total_value_def ledger_value_def)
qed (use assms in \<open>simp_all add: total_value_def ledger_value_def Number_toFixed8_def\<close>)

text \<open>The balance after the fee: a value of the ledger, and a finite one when the
  balance before the fee is finite.\<close>

lemma new_balance_value:
  assumes "ledger_value post"
  shows "ledger_value (Number_toFixed8 (num_sub post (Number_toFixed8 (num_mul post feeRate))))"
    and "isFinite post \<Longrightarrow>
      \<exists>r. Number_toFixed8 (num_sub post (Number_toFixed8 (num_mul post feeRate))) = Fin r \<and> 0 \<le> r"
proof -
  obtain c where c: "feeRate = Fin c" "1 / 256 \<le> c" using feeRate_bounds by blast
  have c0: "0 < c" using c(2) by linarith
  have fin: "\<exists>r. Number_toFixed8 (num_sub (Fin s) (Number_toFixed8 (num_mul (Fin s) feeRate))) = Fin r
      \<and> 0 \<le> r \<and> is_double r" if s: "is_double s" "0 \<le> s" for s
  proof -
    obtain f where f: "Number_toFixed8 (num_mul (Fin s) feeRate) = Fin f" "0 \<le> f" "f \<le> s"
      using fee_le[OF s] by blast
    have "0 \<le> s - f" "s - f \<le> s" using f by simp_all
    then obtain t where t: "fl (s - f) = Fin t" "0 \<le> t" "is_double t"
      using fl_between[OF _ _ s(1)] by blast
    have "num_sub (Fin s) (Fin f) = Fin t" using t(1) by (simp add: num_sub_def num_neg_def num_add_def)
    then show ?thesis using f(1) tf8_value[OF t(2)] t(3) by auto
  qed
  show "ledger_value (Number_toFixed8 (num_sub post (Number_toFixed8 (num_mul post feeRate))))"
  proof (cases post)
    case (Fin s)
    then have "is_double s" "0 \<le> s" using assms by (simp_all add: ledger_value_def)
    then obtain r where
      "Number_toFixed8 (num_sub (Fin s) (Number_toFixed8 (num_mul (Fin s) feeRate))) = Fin r"
      "0 \<le> r" "is_double r"
      using fin by blast
    then show ?thesis using Fin by (simp add: ledger_value_def)
  next
    case PInf
    then show ?thesis using c0
      by (simp add: num_mul_def c(1) inf_of_sign_def Number_toFixed8_def num_sub_def num_neg_def
          num_add_def ledger_value_def)
  qed (use assms in \<open>simp_all add: num_mul_def Number_toFixed8_def num_sub_def num_add_def ledger_value_def\<close>)
  show "\<exists>r. Number_toFixed8 (num_sub post (Number_toFixed8 (num_mul post feeRate))) = Fin r \<and> 0 \<le> r"
    if "isFinite post"
  proof (cases post)
    case (Fin s)
    then have "is_double s" "0 \<le> s" using assms by (simp_all add: ledger_value_def)
    then show ?thesis using fin Fin by blast
  qed (use that in \<open>simp_all add: isFinite_def\<close>)
qed


lemma total_add_value:
  assumes "total_value p" "ledger_value f"
  shows "total_value (add_fee p f)"
  unfolding add_fee_def
  using assms by (intro ledger_value_round ledger_value_add) (simp_all add: total_value_def)



section \<open>Runs of the server\<close>

lemma deposit_cases:
  obtains (fault) "deposit_amount_throws body" "deposit st body random now = (InternalFailure, st)"
  | (invalid) "deposit_invalid body" "deposit st body random now = (ValidationFailed, st)"
  | (valid) who sid where "\<not> deposit_invalid body" "who \<noteq> []" "sid \<noteq> []"
      "Option.bind body req_investor = Some who"
      "deposit st body random now =
         apply_deposit st who sid (deposit_amount body) (Option.bind body req_asset) random now"
proof (cases "deposit_amount_throws body")
  case True
  then show ?thesis using fault by (simp add: deposit_throws)
next
  case nt: False
  show ?thesis
  proof (cases "deposit_invalid body")
    case True
    then show ?thesis using invalid nt by (simp add: deposit_rejects)
  next
    case False
    then obtain who sid where f: "Option.bind body req_investor = Some who"
      "Option.bind body req_strategyId = Some sid" "who \<noteq> []" "sid \<noteq> []"
      using deposit_valid_fields by blast
    show ?thesis using valid[OF False f(3,4,1)] deposit_valid[OF False f(1,2)] by simp
  qed
qed

lemma StrUnsignedNumber_double: "StrUnsignedNumber t = Fin a \<Longrightarrow> is_double a"
  by (auto simp add: StrUnsignedNumber_def fl_is_double split: if_splits option.splits)

lemma StringToNumber_double:
  assumes "StringToNumber s = Fin a"
  shows "is_double a"
proof -
  have neg: "is_double b" if "num_neg (StrUnsignedNumber t) = Fin b" for t b
  proof -
    have "StrUnsignedNumber t = Fin (- b)"
      using that by (cases "StrUnsignedNumber t") (simp_all add: num_neg_def)
    then have "is_double (- b)" by (rule StrUnsignedNumber_double)
    then show ?thesis by (simp add: is_double_minus)
  qed
  show ?thesis
    using assms
    by (auto simp add: StringToNumber_def Let_def is_double_0 fl_is_double neg
        StrUnsignedNumber_double split: if_splits option.splits list.splits)
qed

lemma element_number_double: "element_number x = Fin a \<Longrightarrow> is_double a"
  by (induction x rule: element_number.induct)
     (simp_all add: is_double_0 fl_is_double StringToNumber_double)

lemma Number_nullish0_double:
  assumes "Number_nullish0 v = Fin a"
  shows "is_double a"
proof -
  have "is_double 1" using is_double_int[of 1] by simp
  then show ?thesis
    using assms
    by (auto simp add: Number_nullish0_def is_double_0 fl_is_double StringToNumber_double
        element_number_double split: option.splits jsvalue.splits if_splits)
qed

lemma valid_amount:
  assumes "\<not> deposit_invalid body"
  shows "\<exists>a. deposit_amount body = Fin a \<and> 0 < a \<and> is_double a"
proof -
  obtain a where a: "deposit_amount body = Fin a" "\<not> a \<le> 0"
    using assms
    by (cases "deposit_amount body") (auto simp add: deposit_invalid_def isFinite_def num_le_def)
  have "is_double a" using a(1) by (auto simp add: deposit_amount_def intro: Number_nullish0_double)
  then show ?thesis using a by auto
qed

lemma valid_amount_value: "\<not> deposit_invalid body \<Longrightarrow> ledger_value (deposit_amount body)"
  using valid_amount[of body] by (auto simp add: ledger_value_def)

lemma current_balance_value:
  "state_ok st \<Longrightarrow> ledger_value (balance (current_account st who sid))"
  by (auto simp add: state_ok_def current_account_def ledger_value_def is_double_0
      split: option.splits)

lemma post_balance_value:
  "state_ok st \<Longrightarrow> ledger_value amount \<Longrightarrow> ledger_value (post_balance st who sid amount)"
  unfolding post_balance_def by (intro ledger_value_add current_balance_value)

lemma state_ok_initial: "state_ok initial_state"
  by (simp add: state_ok_def initial_state_def total_value_def ledger_value_def is_double_0
      tf8_zero)

lemma state_ok_apply_deposit:
  assumes "state_ok st" "ledger_value amount"
  shows "state_ok (snd (apply_deposit st who sid amount asset random now))"
proof -
  have p: "ledger_value (post_balance st who sid amount)"
    using assms by (rule post_balance_value)
  have t: "total_value (platformTotalFees st)" using assms(1) by (simp add: state_ok_def)
  have f: "ledger_value (Number_toFixed8 (num_mul (post_balance st who sid amount) feeRate))"
    using p by (rule ledger_value_fee)
  have "total_value (add_fee (platformTotalFees st)
      (Number_toFixed8 (num_mul (post_balance st who sid amount) feeRate)))"
    using t f by (rule total_add_value)
  then show ?thesis
    using assms(1) p t new_balance_value(1)[OF p]
    by (auto simp add: apply_deposit_eq Let_def state_ok_def add_fee_def)
qed

lemma state_ok_deposit:
  assumes "state_ok st"
  shows "state_ok (snd (deposit st body random now))"
proof (cases rule: deposit_cases[of body st random now])
  case fault
  then show ?thesis using assms by simp
next
  case invalid
  then show ?thesis using assms by simp
next
  case (valid who sid)
  show ?thesis
    unfolding valid(5) using assms valid_amount_value[OF valid(1)] by (rule state_ok_apply_deposit)
qed

lemma handle_deposit:
  "handle st (DepositReq body random now) =
     (DepositReply (fst (deposit st body random now)), snd (deposit st body random now))"
  by (simp add: handle_def split: prod.splits)

lemma run_Cons:
  "run st (r # rs) =
     (fst (handle st r) # fst (run (snd (handle st r)) rs), snd (run (snd (handle st r)) rs))"
  by (simp split: prod.splits)

lemma state_ok_handle: "state_ok st \<Longrightarrow> state_ok (snd (handle st r))"
proof (cases r)
  case (DepositReq body random now)
  assume "state_ok st"
  then have "state_ok (snd (deposit st body random now))" by (rule state_ok_deposit)
  then show ?thesis using DepositReq by (simp add: handle_deposit)
next
  case (PauseReq x)
  assume "state_ok st"
  then show ?thesis using PauseReq
    by (auto simp add: handle_def pauseStrategy_def state_ok_def split: option.splits)
next
  case (ResumeReq x)
  assume "state_ok st"
  then show ?thesis using ResumeReq
    by (auto simp add: handle_def resumeStrategy_def state_ok_def split: option.splits)
qed


lemma state_ok_run: "state_ok st \<Longrightarrow> state_ok (snd (run st rs))"
proof (induction rs arbitrary: st)
  case Nil
  then show ?case by simp
next
  case (Cons r rs)
  have "state_ok (snd (handle st r))" using Cons.prems by (rule state_ok_handle)
  then have "state_ok (snd (run (snd (handle st r)) rs))" by (rule Cons.IH)
  then show ?case by (simp only: run_Cons snd_conv)
qed


section \<open>The balance after a deposit\<close>

lemma fl_overflow:
  assumes "2 ^ 1024 \<le> q"
  shows "fl q = PInf"
proof -
  have "rnd (of_int 1 * 2 powi 1024) = of_int 1 * 2 powi 1024" by (rule rnd_exact) simp_all
  then have "rnd (2 ^ 1024) = 2 ^ 1024" by simp
  then have "2 ^ 1024 \<le> rnd q" using rnd_mono[OF assms] by simp
  then show ?thesis by (simp add: fl_cases)
qed

lemma fl_2_1023: "fl (2 ^ 1023) = Fin (2 ^ 1023)"
  using fl_double[OF is_double_pow2[of 1023]] by simp

lemma deposit_invalid_num:
  "fl q = Fin a \<Longrightarrow> 0 < a \<Longrightarrow>
     deposit_invalid (deposit_request who sid (Some (JNum q)) asset) = (who = [] \<or> sid = [])"
  by (simp add: deposit_invalid_request Number_nullish0_def isFinite_def num_le_def)

lemma deposit_num:
  assumes "fl q = Fin a" "0 < a" "who \<noteq> []" "sid \<noteq> []"
  shows "deposit st (deposit_request who sid (Some (JNum q)) asset) random now =
     apply_deposit st who sid (Fin a) asset random now"
proof -
  have "\<not> deposit_invalid (deposit_request who sid (Some (JNum q)) asset)"
    using assms by (simp add: deposit_invalid_num)
  then show ?thesis using assms(1) by (simp add: deposit_request_valid Number_nullish0_def)
qed

text \<open>A deposit that does not switch, on a fresh account.\<close>

lemma first_deposit_stable:
  assumes "fl q = Fin a" "0 < a" "who \<noteq> []" "sid \<noteq> []"
  shows "deposit initial_state (deposit_request who sid (Some (JNum q)) None) (1 / 4) now =
    (Success \<lparr>res_investor = who, res_strategyId = sid, res_asset = ''XLM'',
        newBalance = Fin a, res_allocation = STABLE, feeCharged = Fin 0,
        res_platformTotalFees = Fin 0, simulated = True, decidedAt = now\<rparr>,
     \<lparr>strategyStatus = Map.empty,
      investorStates = [who \<mapsto> \<lparr>strategyId = sid, balance = Fin a, allocation = STABLE,
         lastDecisionAt = now\<rparr>],
      platformTotalFees = Fin 0\<rparr>)"
proof -
  have "is_double a" using assms(1) by (rule fl_is_double)
  then have "fl a = Fin a" by (rule fl_double)
  then show ?thesis
    by (simp add: deposit_num[OF assms] apply_deposit_eq Let_def post_balance_def switches_def
        current_account_def initial_state_def decideAllocation_stable num_add_def)
qed

text \<open>
  Claim C4 (non-negativity), as the code has it. In every state the server reaches, a
  valid deposit whose balance after the addition is finite returns a balance that is
  greater than or equal to zero, and the fee it charges does not exceed the balance
  after the addition.
\<close>

theorem newBalance_nonneg_when_finite:
  assumes "\<not> deposit_invalid (deposit_request who sid amt asset)"
    and "isFinite (post_balance (snd (run initial_state rs)) who sid (Number_nullish0 amt))"
  shows "map_response
      (\<lambda>d. num_le (Fin 0) (newBalance d) \<and>
           num_le (feeCharged d)
             (post_balance (snd (run initial_state rs)) who sid (Number_nullish0 amt)))
      (fst (deposit (snd (run initial_state rs)) (deposit_request who sid amt asset) random now))
    = Success True"
proof -
  define st where "st = snd (run initial_state rs)"
  define post where "post = post_balance st who sid (Number_nullish0 amt)"
  have ok: "state_ok st" unfolding st_def using state_ok_initial by (rule state_ok_run)
  have "ledger_value (deposit_amount (deposit_request who sid amt asset))"
    using assms(1) by (rule valid_amount_value)
  then have "ledger_value (Number_nullish0 amt)"
    by (simp add: deposit_amount_def deposit_request_def)
  then have lv: "ledger_value post" unfolding post_def using ok by (intro post_balance_value)
  obtain s where s: "post = Fin s" using assms(2) 
    by (cases post) (simp_all add: isFinite_def post_def st_def)
  have sd: "is_double s" "0 \<le> s" using lv s by (simp_all add: ledger_value_def)
  obtain f where f: "Number_toFixed8 (num_mul post feeRate) = Fin f" "0 \<le> f" "f \<le> s"
    using fee_le[OF sd] s by blast
  obtain r where r: "Number_toFixed8 (num_sub post (Number_toFixed8 (num_mul post feeRate))) = Fin r"
    "0 \<le> r"
    using new_balance_value(2)[OF lv] s by (auto simp add: isFinite_def)
  have d: "deposit st (deposit_request who sid amt asset) random now =
      apply_deposit st who sid (Number_nullish0 amt) asset random now"
    by (rule deposit_request_valid[OF assms(1)])
  show ?thesis
    unfolding st_def[symmetric] d
    using f r sd
    by (simp add: apply_deposit_eq Let_def post_def[symmetric]) (simp add: s num_le_def)
qed

theorem newBalance_nonneg_when_finite_witness:
  "\<not> deposit_invalid (deposit_request ''inv1'' ''grid-1'' (Some (JNum 1000)) None) \<and>
   isFinite (post_balance (snd (run initial_state [])) ''inv1'' ''grid-1''
      (Number_nullish0 (Some (JNum 1000)))) \<and>
   map_response
      (\<lambda>d. num_le (Fin 0) (newBalance d) \<and>
           num_le (feeCharged d)
             (post_balance (snd (run initial_state [])) ''inv1'' ''grid-1''
                (Number_nullish0 (Some (JNum 1000)))))
      (fst (deposit (snd (run initial_state []))
         (deposit_request ''inv1'' ''grid-1'' (Some (JNum 1000)) None) (3 / 4) 5))
    = Success True"
proof -
  have a: "\<not> deposit_invalid (deposit_request ''inv1'' ''grid-1'' (Some (JNum 1000)) None)"
    by (simp add: deposit_invalid_request Number_nullish0_def fl_1000 isFinite_def num_le_def)
  have b: "isFinite (post_balance (snd (run initial_state [])) ''inv1'' ''grid-1''
      (Number_nullish0 (Some (JNum 1000))))"
    by (simp add: post_balance_def current_account_def initial_state_def Number_nullish0_def
        fl_1000 num_add_def isFinite_def)
  note t = newBalance_nonneg_when_finite[OF a b, of "3 / 4" 5]
  show ?thesis using a b t by blast
qed

text \<open>
  Claim C4 as stated fails when the addition overflows. Two valid deposits of
  \<open>2^1023\<close> by one investor, the first decided STABLE and the second INVESTED: the first
  leaves the balance \<open>2^1023\<close>; in the second the sum is Infinity, the fee is Infinity
  and the balance returned is \<^verbatim>\<open>Infinity - Infinity\<close>, that is NaN, which is not
  greater than or equal to zero.
\<close>

theorem newBalance_nonneg_counterexample:
  "map_response newBalance
     (fst (deposit initial_state
        (deposit_request ''inv1'' ''grid-1'' (Some (JNum (2 ^ 1023))) None) (1 / 4) 0))
     = Success (Fin (2 ^ 1023)) \<and>
   map_response (\<lambda>d. (newBalance d, num_le (Fin 0) (newBalance d)))
     (fst (deposit
        (snd (deposit initial_state
           (deposit_request ''inv1'' ''grid-1'' (Some (JNum (2 ^ 1023))) None) (1 / 4) 0))
        (deposit_request ''inv1'' ''grid-1'' (Some (JNum (2 ^ 1023))) None) (3 / 4) 1))
     = Success (NaN, False)"
proof -
  define B :: rat where "B = 2 ^ 1023"
  define rq where "rq = deposit_request ''inv1'' ''grid-1'' (Some (JNum B)) None"
  define st1 where "st1 = snd (deposit initial_state rq (1 / 4) 0)"
  obtain c where c: "feeRate = Fin c" "1 / 256 \<le> c" using feeRate_bounds by blast
  have c0: "0 < c" using c(2) by linarith
  have flB: "fl B = Fin B" unfolding B_def by (rule fl_2_1023)
  have big: "fl (2 * B) = PInf" unfolding B_def by (rule fl_overflow) simp
  have p: "0 < B" "''inv1'' \<noteq> []" "''grid-1'' \<noteq> []" by (simp_all add: B_def)
  note d1 = first_deposit_stable[OF flB p, of 0, folded rq_def]
  have s1: "st1 = \<lparr>strategyStatus = Map.empty,
      investorStates = [''inv1'' \<mapsto> \<lparr>strategyId = ''grid-1'', balance = Fin B, allocation = STABLE,
         lastDecisionAt = 0\<rparr>],
      platformTotalFees = Fin 0\<rparr>"
    unfolding st1_def d1 by simp
  have post: "post_balance st1 ''inv1'' ''grid-1'' (Fin B) = PInf"
    by (simp add: post_balance_def current_account_def s1 num_add_def big)
  have sw: "switches st1 ''inv1'' ''grid-1'' (3 / 4)"
    by (simp add: switches_def current_account_def s1 decideAllocation_invested)
  have fee: "Number_toFixed8 (num_mul PInf feeRate) = PInf"
    using c0 by (simp add: c(1) num_mul_def inf_of_sign_def Number_toFixed8_def)
  have nb: "Number_toFixed8 (num_sub PInf PInf) = NaN"
    by (simp add: num_sub_def num_neg_def num_add_def Number_toFixed8_def)
  have d2: "deposit st1 rq (3 / 4) 1 = apply_deposit st1 ''inv1'' ''grid-1'' (Fin B) None (3 / 4) 1"
    unfolding rq_def by (rule deposit_num[OF flB p])
  have r1: "map_response newBalance (fst (deposit initial_state rq (1 / 4) 0)) = Success (Fin B)"
    unfolding d1 by simp
  have r2: "map_response (\<lambda>d. (newBalance d, num_le (Fin 0) (newBalance d)))
      (fst (deposit st1 rq (3 / 4) 1)) = Success (NaN, False)"
    unfolding d2 by (simp add: apply_deposit_eq Let_def post sw fee nb num_le_def)
  show ?thesis using r1 r2 unfolding st1_def rq_def B_def by blast
qed


text \<open>
  Claim C9 (a small deposit can lower the balance). An existing account holds 10000 in
  allocation STABLE (it was created by a deposit of 10000 decided STABLE). A valid
  deposit of 1 decided INVESTED switches the allocation; the fee is taken from the whole
  balance 10001, and the balance returned is below the 10000 held before the deposit.
\<close>

theorem small_deposit_lowers_balance:
  "investorStates
     (snd (deposit initial_state
        (deposit_request ''inv1'' ''grid-1'' (Some (JNum 10000)) None) (1 / 4) 0)) ''inv1''
     = Some \<lparr>strategyId = ''grid-1'', balance = Fin 10000, allocation = STABLE,
         lastDecisionAt = 0\<rparr> \<and>
   map_response (\<lambda>d. num_lt (newBalance d) (Fin 10000) \<and> num_lt (Fin 1) (feeCharged d))
     (fst (deposit
        (snd (deposit initial_state
           (deposit_request ''inv1'' ''grid-1'' (Some (JNum 10000)) None) (1 / 4) 0))
        (deposit_request ''inv1'' ''grid-1'' (Some (JNum 1)) None) (3 / 4) 1))
     = Success True"
proof -
  define st1 where "st1 = snd (deposit initial_state
        (deposit_request ''inv1'' ''grid-1'' (Some (JNum 10000)) None) (1 / 4) 0)"
  obtain c where c: "feeRate = Fin c" "1 / 256 \<le> c" "c \<le> 1 / 100" using feeRate_bounds by blast
  have fl10000: "fl 10000 = Fin 10000" using fl_int[of 10000] by simp
  have fl1: "fl 1 = Fin 1" using fl_int[of 1] by simp
  have fl10001: "fl 10001 = Fin 10001" using fl_int[of 10001] by simp
  have d10001: "is_double 10001" using is_double_int[of 10001] by simp
  have d32: "is_double 32" using is_double_int[of 32] by simp
  have d9969: "is_double 9969" using is_double_int[of 9969] by simp
  have p: "(0::rat) < 10000" "''inv1'' \<noteq> []" "''grid-1'' \<noteq> []" by simp_all
  note d1 = first_deposit_stable[OF fl10000 p, of 0]
  have s1: "st1 = \<lparr>strategyStatus = Map.empty,
      investorStates = [''inv1'' \<mapsto> \<lparr>strategyId = ''grid-1'', balance = Fin 10000,
         allocation = STABLE, lastDecisionAt = 0\<rparr>],
      platformTotalFees = Fin 0\<rparr>"
    unfolding st1_def d1 by simp
  have post: "post_balance st1 ''inv1'' ''grid-1'' (Fin 1) = Fin 10001"
    by (simp add: post_balance_def current_account_def s1 num_add_def fl10001)
  have sw: "switches st1 ''inv1'' ''grid-1'' (3 / 4)"
    by (simp add: switches_def current_account_def s1 decideAllocation_invested)
  \<comment> \<open>the product\<close>
  have "(0::rat) \<le> 10001 * c" "10001 * c \<le> 10001" using c(2,3) by simp_all
  then obtain x where x: "fl (10001 * c) = Fin x" "0 \<le> x" "x \<le> 10001"
    using fl_between[OF _ _ d10001] by blast
  have "32 \<le> 10001 * c" using c(2) by simp
  then have x32: "32 \<le> x" using d32 x(1) by (rule fl_ge)
  have mul: "num_mul (Fin 10001) feeRate = Fin x" by (simp add: num_mul_def c(1) x(1))
  \<comment> \<open>the fee\<close>
  have n0: "(0::rat) \<le> 10001" by simp
  obtain f where f: "Number_toFixed8 (num_mul (Fin 10001) feeRate) = Fin f" "0 \<le> f" "f \<le> 10001"
    using fee_le[OF d10001 n0] by blast
  have fx: "Number_toFixed8 (Fin x) = Fin f" using f(1) unfolding mul .
  have g32: "rat_of_int 3200000000 / 10 ^ 8 = 32" by simp
  have g1: "rat_of_int 3200000000 / 10 ^ 8 \<le> x" unfolding g32 by (rule x32)
  have g2: "x < 10 ^ 21" using x(3) by simp
  have g3: "is_double (rat_of_int 3200000000 / 10 ^ 8)" unfolding g32 by (rule d32)
  have g4: "(0::int) \<le> 3200000000" by simp
  have f32: "32 \<le> f" using tf8_ge_grid[OF g1 g2 g3 g4 fx] unfolding g32 .
  \<comment> \<open>the difference\<close>
  have "0 \<le> 10001 - f" "10001 - f \<le> 9969" using f(3) f32 by simp_all
  then obtain t where t: "fl (10001 - f) = Fin t" "0 \<le> t" "t \<le> 9969"
    using fl_between[OF _ _ d9969] by blast
  have sub: "num_sub (Fin 10001) (Fin f) = Fin t"
    using t(1) by (simp add: num_sub_def num_neg_def num_add_def)
  have h: "rat_of_int 996900000000 / 10 ^ 8 = 9969" by simp
  have h1: "t \<le> rat_of_int 996900000000 / 10 ^ 8" unfolding h by (rule t(3))
  have h2: "is_double (rat_of_int 996900000000 / 10 ^ 8)" unfolding h by (rule d9969)
  have h3: "rat_of_int 996900000000 / 10 ^ 8 < 10 ^ 21" unfolding h by simp
  obtain r where r: "Number_toFixed8 (Fin t) = Fin r" "0 \<le> r" "r \<le> rat_of_int 996900000000 / 10 ^ 8"
    using tf8_le_grid[OF t(2) h1 h2 h3] by blast
  have r9969: "r \<le> 9969" using r(3) unfolding h .
  have d2: "deposit st1 (deposit_request ''inv1'' ''grid-1'' (Some (JNum 1)) None) (3 / 4) 1 =
      apply_deposit st1 ''inv1'' ''grid-1'' (Fin 1) None (3 / 4) 1"
    by (rule deposit_num[OF fl1]) simp_all
  have r1: "investorStates st1 ''inv1'' = Some \<lparr>strategyId = ''grid-1'', balance = Fin 10000,
      allocation = STABLE, lastDecisionAt = 0\<rparr>"
    by (simp add: s1)
  have r2: "map_response (\<lambda>d. num_lt (newBalance d) (Fin 10000) \<and> num_lt (Fin 1) (feeCharged d))
      (fst (deposit st1 (deposit_request ''inv1'' ''grid-1'' (Some (JNum 1)) None) (3 / 4) 1))
      = Success True"
    unfolding d2 using r9969 f32
    by (simp add: apply_deposit_eq Let_def post sw f(1) sub r(1) num_lt_def)
  show ?thesis using r1 r2 unfolding st1_def by blast
qed


section \<open>The fee total\<close>















subsection \<open>Evaluating a rounding\<close>

lemma rnd_eqI:
  assumes "0 < q" "2 powi k \<le> q" "q < 2 powi (k + 1)" "- 1022 \<le> k"
    and "\<bar>q / 2 powi (k - 52) - of_int m\<bar> < 1 / 2"
  shows "rnd q = of_int m * 2 powi (k - 52)"
proof -
  have "ilog2 q = k" using assms(1-3) by (rule ilog2_unique)
  then have e: "ex q = k - 52" using assms(1,4) by (simp add: ex_def)
  have "rhe (q / 2 powi (k - 52)) = m" using assms(5) by (rule rhe_unique)
  then show ?thesis by (simp add: rnd_def e)
qed

lemma feeRate_value: "feeRate = Fin (5764607523034235 / 1152921504606846976)"
proof -
  have "rnd (5 / 1000) = of_int 5764607523034235 * 2 powi (- 8 - 52)"
    by (rule rnd_eqI) (simp_all add: power_int_minus_divide)
  then have "rnd (5 / 1000) = 5764607523034235 / 1152921504606846976"
    by (simp add: power_int_minus_divide)
  then show ?thesis by (simp add: feeRate_def fl_cases)
qed




text \<open>A deposit that switches, with the values of its steps.\<close>

lemma apply_deposit_switch:
  assumes "switches st who sid random"
    and "post_balance st who sid amount = post"
    and "Number_toFixed8 (num_mul post feeRate) = fee"
    and "Number_toFixed8 (num_sub post fee) = nb"
    and "Number_toFixed8 (num_add (platformTotalFees st) fee) = tot"
  shows "apply_deposit st who sid amount None random now =
    (Success \<lparr>res_investor = who, res_strategyId = sid, res_asset = ''XLM'',
        newBalance = nb, res_allocation = decideAllocation random, feeCharged = fee,
        res_platformTotalFees = tot, simulated = True, decidedAt = now\<rparr>,
     st\<lparr>investorStates := (investorStates st)(who \<mapsto>
           \<lparr>strategyId = sid, balance = nb, allocation = decideAllocation random,
            lastDecisionAt = now\<rparr>),
        platformTotalFees := tot\<rparr>)"
  using assms by (simp add: apply_deposit_eq Let_def)

lemma run_deposit_Cons:
  "run st (DepositReq body random now # rs) =
     (DepositReply (fst (deposit st body random now)) # fst (run (snd (deposit st body random now)) rs),
      snd (run (snd (deposit st body random now)) rs))"
  by (simp add: run_Cons handle_deposit del: run.simps)



section \<open>The balance of an investor\<close>

lemma ledger_entries_Cons:
  "ledger_entries who (r # rs) (y # ys) = ledger_entries who [r] [y] @ ledger_entries who rs ys"
proof (cases r)
  case (DepositReq body random now)
  show ?thesis
  proof (cases y)
    case (DepositReply x)
    then show ?thesis using DepositReq by (cases x) simp_all
  next
    case (StrategyReply x)
    then show ?thesis using DepositReq by simp
  qed
next
  case (PauseReq x)
  then show ?thesis by simp
next
  case (ResumeReq x)
  then show ?thesis by simp
qed

lemma view_current:
  "account_view st who = (balance (current_account st who sid), allocation (current_account st who sid))"
  by (simp add: account_view_def current_account_def split: option.splits)

text \<open>One request changes an investor's balance and allocation by the entries it adds
  to the investor's ledger, and by nothing else.\<close>

lemma view_handle:
  "account_view (snd (handle st r)) who =
     foldl ledger_step (account_view st who) (ledger_entries who [r] [fst (handle st r)])"
proof (cases r)
  case (DepositReq body random now)
  show ?thesis
  proof (cases rule: deposit_cases[of body st random now])
    case fault
    then show ?thesis using DepositReq by (simp add: handle_deposit)
  next
    case invalid
    then show ?thesis using DepositReq by (simp add: handle_deposit)
  next
    case (valid w sid)
    have h: "handle st (DepositReq body random now) =
        (DepositReply (fst (apply_deposit st w sid (deposit_amount body) (Option.bind body req_asset)
            random now)),
         snd (apply_deposit st w sid (deposit_amount body) (Option.bind body req_asset) random now))"
      using valid(5) by (simp add: handle_deposit)
    show ?thesis
    proof (cases "w = who")
      case True
      show ?thesis
        unfolding DepositReq h
        by (simp add: apply_deposit_eq Let_def True view_current[of st who sid] ledger_step_def
            post_balance_def switches_def)
           (auto simp add: account_view_def)
    next
      case False
      then show ?thesis
        unfolding DepositReq h
        by (simp add: apply_deposit_eq Let_def account_view_def)
    qed
  qed
next
  case (PauseReq x)
  then show ?thesis
    by (auto simp add: handle_def pauseStrategy_def account_view_def split: option.splits)
next
  case (ResumeReq x)
  then show ?thesis
    by (auto simp add: handle_def resumeStrategy_def account_view_def split: option.splits)
qed

lemma view_run:
  "account_view (snd (run st rs)) who =
     foldl ledger_step (account_view st who) (ledger_entries who rs (fst (run st rs)))"
proof (induction rs arbitrary: st)
  case Nil
  then show ?case by simp
next
  case (Cons r rs)
  show ?case
    using Cons.IH[of "snd (handle st r)"] view_handle[of st r who]
    by (simp only: run_Cons fst_conv snd_conv ledger_entries_Cons[of who r rs] foldl_append)
qed

text \<open>
  Claim C1 (balance conservation), as the code has it. After every sequence of requests,
  the balance and the allocation of an investor are those obtained from balance 0 and
  allocation STABLE by applying the investor's successful deposits in order, each as the
  reply describes it: the amount is added (binary64 addition) and, when the reply
  reports a changed allocation, the reported fee is subtracted and the result is rounded
  to 8 decimals. No other request changes them.
\<close>

theorem ledger_replay:
  "account_view (snd (run initial_state rs)) who =
     foldl ledger_step (Fin 0, STABLE) (ledger_entries who rs (fst (run initial_state rs)))"
  using view_run[of initial_state rs who] by (simp add: account_view_def initial_state_def)

text \<open>
  Claim C1 as stated fails. An investor deposits \<open>2^-28\<close> (0.0000000037252902984619140625)
  twice, and both deposits switch the allocation. Each fee is 0, and each time the
  balance is rounded to 8 decimals, which gives 0. The final balance is 0, the deposits
  sum to 0.00000000745..., which is 0.00000001 with 8 decimals.
\<close>

theorem balance_conservation_counterexample:
  "map deposit_amount
     [deposit_request ''inv1'' ''grid-1'' (Some (JNum (1 / 2 ^ 28))) None,
      deposit_request ''inv1'' ''grid-1'' (Some (JNum (1 / 2 ^ 28))) None]
     = [Fin (1 / 2 ^ 28), Fin (1 / 2 ^ 28)] \<and>
   fees_of (fst (run initial_state
     [DepositReq (deposit_request ''inv1'' ''grid-1'' (Some (JNum (1 / 2 ^ 28))) None) (3 / 4) 0,
      DepositReq (deposit_request ''inv1'' ''grid-1'' (Some (JNum (1 / 2 ^ 28))) None) (1 / 4) 5]))
     = [Fin 0, Fin 0] \<and>
   account_view (snd (run initial_state
     [DepositReq (deposit_request ''inv1'' ''grid-1'' (Some (JNum (1 / 2 ^ 28))) None) (3 / 4) 0,
      DepositReq (deposit_request ''inv1'' ''grid-1'' (Some (JNum (1 / 2 ^ 28))) None) (1 / 4) 5]))
     ''inv1'' = (Fin 0, STABLE) \<and>
   \<not> balance_conserved [1 / 2 ^ 28, 1 / 2 ^ 28] [0, 0] 0"
proof -
  define a :: rat where "a = 1 / 2 ^ 28"
  define rq where "rq = deposit_request ''inv1'' ''grid-1'' (Some (JNum a)) None"
  define s1 where "s1 = initial_state\<lparr>investorStates := (investorStates initial_state)(''inv1'' \<mapsto>
           \<lparr>strategyId = ''grid-1'', balance = Fin 0, allocation = decideAllocation (3 / 4),
            lastDecisionAt = 0\<rparr>),
        platformTotalFees := Fin 0\<rparr>"
  define s2 where "s2 = s1\<lparr>investorStates := (investorStates s1)(''inv1'' \<mapsto>
           \<lparr>strategyId = ''grid-1'', balance = Fin 0, allocation = decideAllocation (1 / 4),
            lastDecisionAt = 5\<rparr>),
        platformTotalFees := Fin 0\<rparr>"
  have ne: "''inv1'' \<noteq> []" "''grid-1'' \<noteq> []" by simp_all
  have da: "is_double a" unfolding a_def using is_double_pow2[of "- 28"] by (simp add: power_int_minus_divide)
  have fla: "fl a = Fin a" using da by (rule fl_double)
  have a0: "0 < a" "0 \<le> a" by (simp_all add: a_def)
  have ah: "a < 1 / (2 * 10 ^ 8)" by (simp add: a_def)
  obtain c where c: "feeRate = Fin c" "1 / 256 \<le> c" "c \<le> 1 / 100" using feeRate_bounds by blast
  have "0 \<le> a * c" using a0(2) c(2) by simp
  moreover have "a * c \<le> a * 1" using a0(2) c(3) by (intro mult_left_mono) simp_all
  ultimately obtain x where x: "fl (a * c) = Fin x" "0 \<le> x" "x \<le> a"
    using fl_between[OF _ _ da] by auto
  have "x < 1 / (2 * 10 ^ 8)" using x(3) ah by linarith
  then have tx: "Number_toFixed8 (Fin x) = Fin 0" using x(2) by (intro tf8_zero)
  have ta: "Number_toFixed8 (Fin a) = Fin 0" using a0(2) ah by (rule tf8_zero)
  have t0: "Number_toFixed8 (Fin 0) = Fin 0" by (rule tf8_zero) simp_all
  have fee: "Number_toFixed8 (num_mul (Fin a) feeRate) = Fin 0"
    by (simp only: c(1) num_mul_def number.case x(1) tx)
  have nb: "Number_toFixed8 (num_sub (Fin a) (Fin 0)) = Fin 0"
    by (simp add: num_sub_def num_neg_def num_add_def fla ta)
  have tot: "Number_toFixed8 (num_add (Fin 0) (Fin 0)) = Fin 0"
    by (simp add: num_add_def fl_0 t0)
  have p1: "post_balance initial_state ''inv1'' ''grid-1'' (Fin a) = Fin a"
    by (simp add: post_balance_def current_account_def initial_state_def num_add_def fla)
  have w1: "switches initial_state ''inv1'' ''grid-1'' (3 / 4)"
    by (simp add: switches_def current_account_def initial_state_def decideAllocation_invested)
  have i0: "platformTotalFees initial_state = Fin 0" by (simp add: initial_state_def)
  have d1: "deposit initial_state rq (3 / 4) 0 =
      (Success \<lparr>res_investor = ''inv1'', res_strategyId = ''grid-1'', res_asset = ''XLM'',
          newBalance = Fin 0, res_allocation = decideAllocation (3 / 4), feeCharged = Fin 0,
          res_platformTotalFees = Fin 0, simulated = True, decidedAt = 0\<rparr>, s1)"
    unfolding rq_def deposit_num[OF fla a0(1) ne] s1_def
    by (rule apply_deposit_switch[OF w1 p1 fee nb]) (simp only: i0 tot)
  have p2: "post_balance s1 ''inv1'' ''grid-1'' (Fin a) = Fin a"
    by (simp add: post_balance_def current_account_def s1_def num_add_def fla)
  have w2: "switches s1 ''inv1'' ''grid-1'' (1 / 4)"
    by (simp add: switches_def current_account_def s1_def decideAllocation_invested
        decideAllocation_stable)
  have i1: "platformTotalFees s1 = Fin 0" by (simp add: s1_def)
  have d2: "deposit s1 rq (1 / 4) 5 =
      (Success \<lparr>res_investor = ''inv1'', res_strategyId = ''grid-1'', res_asset = ''XLM'',
          newBalance = Fin 0, res_allocation = decideAllocation (1 / 4), feeCharged = Fin 0,
          res_platformTotalFees = Fin 0, simulated = True, decidedAt = 5\<rparr>, s2)"
    unfolding rq_def deposit_num[OF fla a0(1) ne] s2_def
    by (rule apply_deposit_switch[OF w2 p2 fee nb]) (simp only: i1 tot)
  have r1: "map deposit_amount [rq, rq] = [Fin a, Fin a]"
    by (simp add: rq_def deposit_amount_def deposit_request_def Number_nullish0_def fla)
  have r2: "fees_of (fst (run initial_state [DepositReq rq (3 / 4) 0, DepositReq rq (1 / 4) 5]))
      = [Fin 0, Fin 0]"
    by (simp add: run_deposit_Cons d1 d2 del: run.simps(2))
  have r3: "account_view (snd (run initial_state [DepositReq rq (3 / 4) 0, DepositReq rq (1 / 4) 5]))
      ''inv1'' = (Fin 0, STABLE)"
    by (simp add: run_deposit_Cons d1 d2 del: run.simps(2))
       (simp add: s2_def account_view_def decideAllocation_stable)
  have "to_8_places 0 = 0" unfolding to_8_places_def by (rule floor_unique) simp_all
  moreover have "to_8_places (a + a) = 1"
    unfolding to_8_places_def a_def by (rule floor_unique) simp_all
  ultimately have r4: "\<not> balance_conserved [a, a] [0, 0] 0"
    by (simp add: balance_conserved_def)
  show ?thesis using r1 r2 r3 r4 unfolding rq_def a_def by blast
qed


section \<open>The scenario of the specification\<close>

lemma apply_deposit_keep:
  assumes "\<not> switches st who sid random"
    and "post_balance st who sid amount = post"
  shows "apply_deposit st who sid amount None random now =
    (Success \<lparr>res_investor = who, res_strategyId = sid, res_asset = ''XLM'',
        newBalance = post, res_allocation = decideAllocation random, feeCharged = Fin 0,
        res_platformTotalFees = platformTotalFees st, simulated = True, decidedAt = now\<rparr>,
     st\<lparr>investorStates := (investorStates st)(who \<mapsto>
           \<lparr>strategyId = sid, balance = post, allocation = decideAllocation random,
            lastDecisionAt = now\<rparr>),
        platformTotalFees := platformTotalFees st\<rparr>)"
  using assms by (simp add: apply_deposit_eq Let_def)

lemma tf8_whole:
  assumes "0 \<le> k" "rat_of_int k < 10 ^ 21" "is_double (of_int k)"
  shows "Number_toFixed8 (Fin (of_int k)) = Fin (of_int k)"
proof -
  have "toFixed8_n (of_int k) = k * 10 ^ 8" by (rule toFixed8_n_eqI) simp_all
  moreover have "(0::rat) \<le> of_int k" using assms(1) by simp
  ultimately have "Number_toFixed8 (Fin (of_int k)) = fl (of_int k)"
    using tf8_small[OF _ assms(2)] by simp
  then show ?thesis using assms(3) by (simp add: fl_double)
qed

lemma fl_1000_feeRate: "fl (1000 * (5764607523034235 / 1152921504606846976)) = Fin 5"
proof -
  have "rnd (1000 * (5764607523034235 / 1152921504606846976)) =
      of_int 5629499534213120 * 2 powi (2 - 52)"
    by (rule rnd_eqI) (simp_all add: power_int_minus_divide)
  then have "rnd (1000 * (5764607523034235 / 1152921504606846976)) = 5"
    by (simp add: power_int_minus_divide)
  then show ?thesis by (simp add: fl_cases)
qed

text \<open>
  The scenario of the specification: investor \<^verbatim>\<open>inv1\<close> has no record; a deposit of 1000
  decided INVESTED is charged the fee 5 and leaves the balance 995; a second deposit of
  500, decided INVESTED again, is charged no fee and leaves 1495.
\<close>

lemma scenario_of_the_specification:
  "fst (run initial_state
     [DepositReq (deposit_request ''inv1'' ''grid-1'' (Some (JNum 1000)) None) (3 / 4) 5,
      DepositReq (deposit_request ''inv1'' ''grid-1'' (Some (JNum 500)) None) (3 / 4) 9]) =
   [DepositReply (Success \<lparr>res_investor = ''inv1'', res_strategyId = ''grid-1'',
        res_asset = ''XLM'', newBalance = Fin 995, res_allocation = INVESTED,
        feeCharged = Fin 5, res_platformTotalFees = Fin 5, simulated = True, decidedAt = 5\<rparr>),
    DepositReply (Success \<lparr>res_investor = ''inv1'', res_strategyId = ''grid-1'',
        res_asset = ''XLM'', newBalance = Fin 1495, res_allocation = INVESTED,
        feeCharged = Fin 0, res_platformTotalFees = Fin 5, simulated = True, decidedAt = 9\<rparr>)]"
proof -
  define s1 where "s1 = initial_state\<lparr>investorStates := (investorStates initial_state)(''inv1'' \<mapsto>
           \<lparr>strategyId = ''grid-1'', balance = Fin 995, allocation = decideAllocation (3 / 4),
            lastDecisionAt = 5\<rparr>),
        platformTotalFees := Fin 5\<rparr>"
  have ne: "''inv1'' \<noteq> []" "''grid-1'' \<noteq> []" by simp_all
  have fl500: "fl 500 = Fin 500" using fl_int[of 500] by simp
  have fl5: "fl 5 = Fin 5" using fl_int[of 5] by simp
  have fl995: "fl 995 = Fin 995" using fl_int[of 995] by simp
  have fl1495: "fl 1495 = Fin 1495" using fl_int[of 1495] by simp
  have t5: "Number_toFixed8 (Fin 5) = Fin 5"
    using tf8_whole[of 5] is_double_int[of 5] by simp
  have t995: "Number_toFixed8 (Fin 995) = Fin 995"
    using tf8_whole[of 995] is_double_int[of 995] by simp
  have w1: "switches initial_state ''inv1'' ''grid-1'' (3 / 4)"
    by (simp add: switches_def current_account_def initial_state_def decideAllocation_invested)
  have p1: "post_balance initial_state ''inv1'' ''grid-1'' (Fin 1000) = Fin 1000"
    by (simp add: post_balance_def current_account_def initial_state_def num_add_def fl_1000)
  have f1: "Number_toFixed8 (num_mul (Fin 1000) feeRate) = Fin 5"
    by (simp only: feeRate_value num_mul_def number.case fl_1000_feeRate t5)
  have n1: "Number_toFixed8 (num_sub (Fin 1000) (Fin 5)) = Fin 995"
    by (simp add: num_sub_def num_neg_def num_add_def fl995 t995)
  have o1: "Number_toFixed8 (num_add (platformTotalFees initial_state) (Fin 5)) = Fin 5"
    by (simp add: initial_state_def num_add_def fl5 t5)
  have d1: "deposit initial_state (deposit_request ''inv1'' ''grid-1'' (Some (JNum 1000)) None)
      (3 / 4) 5 =
      (Success \<lparr>res_investor = ''inv1'', res_strategyId = ''grid-1'', res_asset = ''XLM'',
          newBalance = Fin 995, res_allocation = decideAllocation (3 / 4), feeCharged = Fin 5,
          res_platformTotalFees = Fin 5, simulated = True, decidedAt = 5\<rparr>, s1)"
    unfolding deposit_num[OF fl_1000 _ ne, simplified] s1_def
    by (rule apply_deposit_switch[OF w1 p1 f1 n1 o1])
  have w2: "\<not> switches s1 ''inv1'' ''grid-1'' (3 / 4)"
    by (simp add: switches_def current_account_def s1_def)
  have p2: "post_balance s1 ''inv1'' ''grid-1'' (Fin 500) = Fin 1495"
    by (simp add: post_balance_def current_account_def s1_def num_add_def fl1495)
  have d2: "fst (deposit s1 (deposit_request ''inv1'' ''grid-1'' (Some (JNum 500)) None) (3 / 4) 9) =
      Success \<lparr>res_investor = ''inv1'', res_strategyId = ''grid-1'', res_asset = ''XLM'',
          newBalance = Fin 1495, res_allocation = decideAllocation (3 / 4), feeCharged = Fin 0,
          res_platformTotalFees = Fin 5, simulated = True, decidedAt = 9\<rparr>"
    unfolding deposit_num[OF fl500 _ ne, simplified]
    by (simp add: apply_deposit_keep[OF w2 p2]) (simp add: s1_def)
  show ?thesis
    by (simp add: run_deposit_Cons d1 d2 decideAllocation_invested del: run.simps(2))
qed


section \<open>The fee and the decimal rounding\<close>

lemma fl_9_millionths: "fl (9 / 10 ^ 6) = Fin (5312662293228351 / 590295810358705651712)"
proof -
  have "rnd (9 / 10 ^ 6) = of_int 5312662293228351 * 2 powi (- 17 - 52)"
    by (rule rnd_eqI) (simp_all add: power_int_minus_divide)
  then have "rnd (9 / 10 ^ 6) = 5312662293228351 / 590295810358705651712"
    by (simp add: power_int_minus_divide)
  then show ?thesis by (simp add: fl_cases)
qed

lemma fee_on_9_millionths:
  "Number_toFixed8 (num_mul (Fin (5312662293228351 / 590295810358705651712)) feeRate)
     = fl (4 / 10 ^ 8)"
proof -
  have x: "fl (5312662293228351 / 590295810358705651712 *
      (5764607523034235 / 1152921504606846976)) = Fin (6800207735332289 / 151115727451828646838272)"
  proof -
    have "rnd (5312662293228351 / 590295810358705651712 *
        (5764607523034235 / 1152921504606846976)) = of_int 6800207735332289 * 2 powi (- 25 - 52)"
      by (rule rnd_eqI) (simp_all add: power_int_minus_divide)
    then have "rnd (5312662293228351 / 590295810358705651712 *
        (5764607523034235 / 1152921504606846976)) = 6800207735332289 / 151115727451828646838272"
      by (simp add: power_int_minus_divide)
    then show ?thesis by (simp add: fl_cases)
  qed
  have n: "toFixed8_n (6800207735332289 / 151115727451828646838272) = 4"
    by (rule toFixed8_n_eqI) simp_all
  have t: "Number_toFixed8 (Fin (6800207735332289 / 151115727451828646838272)) = fl (4 / 10 ^ 8)"
    using tf8_small[of "6800207735332289 / 151115727451828646838272"] by (simp add: n)
  show ?thesis
    by (simp only: feeRate_value num_mul_def number.case x t)
qed

lemma decimal_fee_9_millionths:
  "decimal_fee (5312662293228351 / 590295810358705651712) = 5 / 10 ^ 8"
proof -
  have "\<lfloor>5312662293228351 / 590295810358705651712 * (5 / 1000 :: rat) * 10 ^ 8 + 1 / 2\<rfloor> = 5"
    by (rule floor_unique) simp_all
  then show ?thesis by (simp add: decimal_fee_def round_8_def)
qed

lemma fl_4_hundred_millionths:
  "\<exists>r. fl (4 / 10 ^ 8) = Fin r \<and> r < 5 / 10 ^ 8 \<and> fl (5 / 10 ^ 8) \<noteq> Fin r"
proof -
  have d: "is_double (3 / 67108864)" "is_double (13 / 268435456)"
    using is_double_dyadic[of 3 "- 26"] is_double_dyadic[of 13 "- 28"]
    by (simp_all add: power_int_minus_divide)
  have "(0::rat) \<le> 4 / 10 ^ 8" "(4::rat) / 10 ^ 8 \<le> 3 / 67108864"
    by simp_all
  then obtain r where r: "fl (4 / 10 ^ 8) = Fin r" "r \<le> 3 / 67108864"
    using fl_between[OF _ _ d(1)] by blast
  have "fl (5 / 10 ^ 8) \<noteq> Fin r"
  proof
    assume f: "fl (5 / 10 ^ 8) = Fin r"
    have l: "(13::rat) / 268435456 \<le> 5 / 10 ^ 8" by simp
    have "13 / 268435456 \<le> r" using l d(2) f by (rule fl_ge)
    then show False using r(2) by simp
  qed
  moreover have "r < 5 / 10 ^ 8" using r(2) by simp
  ultimately show ?thesis using r(1) by blast
qed

text \<open>
  Claim C2 as stated fails. A first deposit of 0.000009 that is decided INVESTED is
  valid and switches the allocation. The balance after the deposit is the binary64
  value of 0.000009, which is slightly above 0.000009, so the product with 0.005,
  rounded to 8 decimals half away from zero, is 0.00000005. The handler multiplies in
  binary64, where the product is slightly below 0.000000045, and charges 0.00000004.
\<close>

theorem fee_below_decimal_rounding:
  "\<not> deposit_invalid (deposit_request ''inv1'' ''grid-1'' (Some (JNum (9 / 10 ^ 6))) None) \<and>
   decideAllocation (3 / 4) \<noteq> allocation (current_account initial_state ''inv1'' ''grid-1'') \<and>
   post_balance initial_state ''inv1'' ''grid-1''
       (deposit_amount (deposit_request ''inv1'' ''grid-1'' (Some (JNum (9 / 10 ^ 6))) None))
     = Fin (5312662293228351 / 590295810358705651712) \<and>
   decimal_fee (5312662293228351 / 590295810358705651712) = 5 / 10 ^ 8 \<and>
   map_response feeCharged
       (fst (deposit initial_state
          (deposit_request ''inv1'' ''grid-1'' (Some (JNum (9 / 10 ^ 6))) None) (3 / 4) 5))
     = Success (fl (4 / 10 ^ 8)) \<and>
   fl (4 / 10 ^ 8) \<noteq> fl (5 / 10 ^ 8) \<and>
   fl (4 / 10 ^ 8) \<noteq> Fin (5 / 10 ^ 8)"
proof -
  define B :: rat where "B = 5312662293228351 / 590295810358705651712"
  have ne: "''inv1'' \<noteq> []" "''grid-1'' \<noteq> []" by simp_all
  have flB: "fl (9 / 10 ^ 6) = Fin B" unfolding B_def by (rule fl_9_millionths)
  have p: "0 < B" by (simp add: B_def)
  have dB: "fl B = Fin B" using fl_is_double[OF flB] by (rule fl_double)
  have v: "\<not> deposit_invalid (deposit_request ''inv1'' ''grid-1'' (Some (JNum (9 / 10 ^ 6))) None)"
    using deposit_invalid_num[OF flB p] ne by simp
  have am: "deposit_amount (deposit_request ''inv1'' ''grid-1'' (Some (JNum (9 / 10 ^ 6))) None)
      = Fin B"
    using flB by (simp add: deposit_amount_def deposit_request_def Number_nullish0_def)
  have post: "post_balance initial_state ''inv1'' ''grid-1'' (Fin B) = Fin B"
    using dB by (simp add: post_balance_def current_account_def initial_state_def num_add_def)
  have sw: "switches initial_state ''inv1'' ''grid-1'' (3 / 4)"
    by (simp add: switches_def current_account_def initial_state_def decideAllocation_invested)
  have fee: "Number_toFixed8 (num_mul (Fin B) feeRate) = fl (4 / 10 ^ 8)"
    unfolding B_def by (rule fee_on_9_millionths)
  have d: "deposit initial_state
      (deposit_request ''inv1'' ''grid-1'' (Some (JNum (9 / 10 ^ 6))) None) (3 / 4) 5 =
      apply_deposit initial_state ''inv1'' ''grid-1'' (Fin B) None (3 / 4) 5"
    using flB p ne by (rule deposit_num)
  have f: "map_response feeCharged
       (fst (deposit initial_state
          (deposit_request ''inv1'' ''grid-1'' (Some (JNum (9 / 10 ^ 6))) None) (3 / 4) 5))
     = Success (fl (4 / 10 ^ 8))"
    unfolding d by (simp add: apply_deposit_switch[OF sw post fee refl refl])
  have dec: "decimal_fee B = 5 / 10 ^ 8" unfolding B_def by (rule decimal_fee_9_millionths)
  obtain r where r: "fl (4 / 10 ^ 8) = Fin r" "r < 5 / 10 ^ 8" "fl (5 / 10 ^ 8) \<noteq> Fin r"
    using fl_4_hundred_millionths by blast
  have n1: "fl (4 / 10 ^ 8) \<noteq> fl (5 / 10 ^ 8)" using r(1,3) by simp
  have n2: "fl (4 / 10 ^ 8) \<noteq> Fin (5 / 10 ^ 8)" using r(1,2) by simp
  have s: "decideAllocation (3 / 4) \<noteq> allocation (current_account initial_state ''inv1'' ''grid-1'')"
    using sw by (simp add: switches_def)
  show ?thesis
    using v s post dec f n1 n2 unfolding am B_def by blast
qed


subsection \<open>The fee against the decimal fee\<close>

lemma round_8_nonneg: "0 \<le> x \<Longrightarrow> round_8 x = of_int (toFixed8_n x) / 10 ^ 8"
proof (cases "x = 0")
  case True
  have "\<lfloor>(1::rat) / 2\<rfloor> = 0" by (rule floor_unique) simp_all
  then show ?thesis using True by (simp add: round_8_def toFixed8_n_def)
next
  case False
  assume "0 \<le> x"
  then have "0 < x" using False by simp
  then show ?thesis by (simp add: round_8_def toFixed8_n_def)
qed

lemma round_8_neg: "x < 0 \<Longrightarrow> round_8 x = - (of_int (toFixed8_n (- x)) / 10 ^ 8)"
  by (simp add: round_8_def toFixed8_n_def)

text \<open>The rounding of the handler is the rounding half away from zero, read back as a
  binary64 value.\<close>

lemma tf8_round_8: "\<bar>a\<bar> < 10 ^ 21 \<Longrightarrow> Number_toFixed8 (Fin a) = fl (round_8 a)"
proof (cases "a < 0")
  case True
  assume "\<bar>a\<bar> < 10 ^ 21"
  then have "\<not> 10 ^ 21 \<le> \<bar>a\<bar>" by simp
  then have "Number_toFixed8 (Fin a) = fl (- (of_int (toFixed8_n (- a)) / 10 ^ 8))"
    using True by (simp only: Number_toFixed8_def number.case if_False if_True)
  then show ?thesis using True by (simp only: round_8_neg)
next
  case False
  assume "\<bar>a\<bar> < 10 ^ 21"
  then have "\<not> 10 ^ 21 \<le> \<bar>a\<bar>" by simp
  then have "Number_toFixed8 (Fin a) = fl (of_int (toFixed8_n a) / 10 ^ 8)"
    using False by (simp only: Number_toFixed8_def number.case if_False)
  moreover have "0 \<le> a" using False by simp
  ultimately show ?thesis by (simp only: round_8_nonneg)
qed

lemma toFixed8_n_close:
  assumes "\<bar>a - b\<bar> < 1 / 10 ^ 8"
  shows "\<bar>toFixed8_n a - toFixed8_n b\<bar> \<le> 1"
proof -
  define A where "A = a * 10 ^ 8 + 1 / 2"
  define B where "B = b * 10 ^ 8 + 1 / 2"
  have "A - B = (a - b) * 10 ^ 8" by (simp add: A_def B_def algebra_simps)
  then have "\<bar>A - B\<bar> = \<bar>(a - b) * 10 ^ 8\<bar>" by (simp only:)
  then have "\<bar>A - B\<bar> = \<bar>a - b\<bar> * 10 ^ 8" by (simp only: abs_mult) simp
  moreover have "\<bar>a - b\<bar> * 10 ^ 8 < 1 / 10 ^ 8 * 10 ^ 8"
    using assms by (rule mult_strict_right_mono) simp
  ultimately have c: "\<bar>A - B\<bar> < 1" by simp
  have fa: "of_int \<lfloor>A\<rfloor> \<le> A" "A < of_int \<lfloor>A\<rfloor> + 1" by linarith+
  have fb: "of_int \<lfloor>B\<rfloor> \<le> B" "B < of_int \<lfloor>B\<rfloor> + 1" by linarith+
  have "rat_of_int \<lfloor>A\<rfloor> - of_int \<lfloor>B\<rfloor> < 2" "rat_of_int \<lfloor>B\<rfloor> - of_int \<lfloor>A\<rfloor> < 2"
    using c fa fb by linarith+
  then have "rat_of_int (\<lfloor>A\<rfloor> - \<lfloor>B\<rfloor>) < of_int 2" "rat_of_int (\<lfloor>B\<rfloor> - \<lfloor>A\<rfloor>) < of_int 2"
    by simp_all
  then have "\<lfloor>A\<rfloor> - \<lfloor>B\<rfloor> < 2" "\<lfloor>B\<rfloor> - \<lfloor>A\<rfloor> < 2" by (simp_all only: of_int_less_iff)
  then show ?thesis unfolding toFixed8_n_def A_def[symmetric] B_def[symmetric] by linarith
qed

lemma ex_below:
  assumes "0 < q" "q < 2 powi k" "- 1021 \<le> k"
  shows "ex q \<le> k - 53"
proof -
  have "2 powi ilog2 q \<le> q" using ilog2_bounds[OF assms(1)] by simp
  then have "(2::rat) powi ilog2 q < 2 powi k" using assms(2) by linarith
  then have "ilog2 q < k" by (rule powi2_less_cancel)
  then show ?thesis using assms(1,3) by (simp add: ex_def)
qed

text \<open>
  The binary64 product of a balance up to \<open>10^9\<close> and the rate differs from the exact
  product with 0.005 by less than two thousand-millionths.
\<close>

lemma product_error:
  assumes "0 \<le> s" "s \<le> 10 ^ 9"
  shows "\<exists>x. fl (s * (5764607523034235 / 1152921504606846976)) = Fin x \<and> is_double x \<and>
     0 \<le> x \<and> x < 10 ^ 21 \<and> \<bar>x - s * (5 / 1000)\<bar> \<le> 2 / 10 ^ 9"
proof -
  define c :: rat where "c = 5764607523034235 / 1152921504606846976"
  define q where "q = s * c"
  have c: "0 < c" "c \<le> 1 / 128" "c - 5 / 1000 = 3 / 28823037615171174400"
    by (simp_all add: c_def)
  have q0: "0 \<le> q" using assms(1) c(1) by (simp add: q_def)
  have "q \<le> 10 ^ 9 * (1 / 128)"
    unfolding q_def using assms c(1,2) by (intro mult_mono) simp_all
  then have qu: "q \<le> 7812500" by simp
  have d: "is_double 8388608" using is_double_int[of 8388608] by simp
  have "q \<le> 8388608" using qu by simp
  then obtain x where x: "fl q = Fin x" "0 \<le> x" "x \<le> 8388608" "is_double x"
    using fl_between[OF q0 _ d] by blast
  have xr: "x = rnd q" using x(1) by (simp add: fl_Fin_iff)
  have e1: "\<bar>x - q\<bar> \<le> 1 / 10 ^ 9"
  proof (cases "q = 0")
    case True
    then show ?thesis by (simp add: xr rnd_0)
  next
    case False
    then have qp: "0 < q" using q0 by simp
    have "q < 2 powi 23" using qu by simp
    then have "ex q \<le> 23 - 53" using qp by (intro ex_below) simp_all
    then have "(2::rat) powi ex q \<le> 2 powi (- 30)" by (intro power_int_increasing) simp_all
    then have "(2::rat) powi ex q / 2 \<le> 1 / 2147483648" by (simp add: power_int_minus_divide)
    then have "\<bar>rnd q - q\<bar> \<le> 1 / 2147483648" using rnd_error[of q] by linarith
    then show ?thesis by (simp add: xr)
  qed
  have "q - s * (5 / 1000) = s * (c - 5 / 1000)" by (simp add: q_def algebra_simps)
  then have qs: "q - s * (5 / 1000) = s * (3 / 28823037615171174400)" by (simp only: c(3))
  have "s * (3 / 28823037615171174400) \<le> 10 ^ 9 * (3 / 28823037615171174400)"
    using assms(2) by (intro mult_right_mono) simp_all
  then have u: "s * (3 / 28823037615171174400) \<le> 1 / 10 ^ 9" by simp
  have l: "0 \<le> s * (3 / 28823037615171174400)" using assms(1) by simp
  have e2: "\<bar>q - s * (5 / 1000)\<bar> \<le> 1 / 10 ^ 9" using u l qs by simp
  have "\<bar>x - s * (5 / 1000)\<bar> \<le> \<bar>x - q\<bar> + \<bar>q - s * (5 / 1000)\<bar>" by simp
  then have "\<bar>x - s * (5 / 1000)\<bar> \<le> 2 / 10 ^ 9" using e1 e2 by simp
  moreover have "x < 10 ^ 21" using x(3) by simp
  ultimately show ?thesis using x unfolding q_def c_def by blast
qed

text \<open>
  The fee on a switch, for a balance up to \<open>10^9\<close>: written with 8 decimals, it is the
  decimal fee of the specification or next to it.
\<close>

lemma fee_near_decimal_fee:
  assumes "0 \<le> s" "s \<le> 10 ^ 9"
  shows "\<exists>f. Number_toFixed8 (num_mul (Fin s) feeRate) = Fin f \<and> 0 \<le> f \<and>
     \<bar>round_8 f - decimal_fee s\<bar> \<le> 1 / 10 ^ 8"
proof -
  obtain x where x: "fl (s * (5764607523034235 / 1152921504606846976)) = Fin x" "is_double x"
    "0 \<le> x" "x < 10 ^ 21" "\<bar>x - s * (5 / 1000)\<bar> \<le> 2 / 10 ^ 9"
    using product_error[OF assms] by blast
  have m: "num_mul (Fin s) feeRate = Fin x" by (simp only: feeRate_value num_mul_def number.case x(1))
  obtain f where f: "Number_toFixed8 (Fin x) = Fin f" "0 \<le> f"
    "f = rnd (of_int (toFixed8_n x) / 10 ^ 8)"
    using tf8_small_finite[OF x(3,4)] by blast
  have n: "toFixed8_n f = toFixed8_n x"
    unfolding f(3) using x(2,3,4) by (rule tf8_fixed_of_rounded)
  have s0: "0 \<le> s * (5 / 1000)" using assms(1) by simp
  have "\<bar>x - s * (5 / 1000)\<bar> < 1 / 10 ^ 8" using x(5) by simp
  then have "\<bar>toFixed8_n x - toFixed8_n (s * (5 / 1000))\<bar> \<le> 1" by (rule toFixed8_n_close)
  then have "rat_of_int \<bar>toFixed8_n x - toFixed8_n (s * (5 / 1000))\<bar> \<le> of_int 1"
    by (simp only: of_int_le_iff)
  then have i: "\<bar>rat_of_int (toFixed8_n x) - of_int (toFixed8_n (s * (5 / 1000)))\<bar> \<le> 1"
    by simp
  have r1: "round_8 f = of_int (toFixed8_n x) / 10 ^ 8"
    by (simp only: round_8_nonneg[OF f(2)] n)
  have r2: "decimal_fee s = of_int (toFixed8_n (s * (5 / 1000))) / 10 ^ 8"
    by (simp only: decimal_fee_def round_8_nonneg[OF s0])
  have "round_8 f - decimal_fee s =
      (of_int (toFixed8_n x) - of_int (toFixed8_n (s * (5 / 1000)))) / 10 ^ 8"
    by (simp only: r1 r2 diff_divide_distrib)
  then have "\<bar>round_8 f - decimal_fee s\<bar> =
      \<bar>of_int (toFixed8_n x) - of_int (toFixed8_n (s * (5 / 1000)))\<bar> / 10 ^ 8"
    by (simp only: abs_divide) simp
  also have "\<dots> \<le> 1 / 10 ^ 8" using i by (rule divide_right_mono) simp
  finally have "\<bar>round_8 f - decimal_fee s\<bar> \<le> 1 / 10 ^ 8" .
  then show ?thesis using f(1,2) m by simp
qed

text \<open>
  Claim C2 (fee only on switch), as the handler computes it. For every valid deposit the
  fee of the reply is exactly 0 when the decision equals the allocation of the account
  the handler works on. When it differs, the fee is \<^verbatim>\<open>Number((b * 0.005).toFixed(8))\<close>, where
  \<open>b\<close> is the balance after the amount was added and before the fee is subtracted, and
  the product is the binary64 product with the binary64 value of 0.005: for a product
  below \<open>10^21\<close> that is the product rounded to 8 decimals, half away from zero, and read
  back as a binary64 value. For a balance \<open>b\<close> from 0 to \<open>10^9\<close> this fee, written with 8
  decimals, is the fee of the specification, \<open>round(b * 0.005, 8)\<close> on the exact
  product, or differs from it by one unit of the eighth decimal.
\<close>

theorem fee_only_on_switch:
  assumes "\<not> deposit_invalid (deposit_request who sid amt asset)"
  shows "\<exists>d. fst (deposit st (deposit_request who sid amt asset) random now) = Success d \<and>
     (decideAllocation random = allocation (current_account st who sid) \<longrightarrow>
        feeCharged d = Fin 0) \<and>
     (decideAllocation random \<noteq> allocation (current_account st who sid) \<longrightarrow>
        feeCharged d = Number_toFixed8 (num_mul
          (post_balance st who sid (deposit_amount (deposit_request who sid amt asset)))
          (fl (5 / 1000))) \<and>
        (\<forall>x. num_mul
            (post_balance st who sid (deposit_amount (deposit_request who sid amt asset)))
            (fl (5 / 1000)) = Fin x \<and> \<bar>x\<bar> < 10 ^ 21 \<longrightarrow>
           feeCharged d = fl (round_8 x)) \<and>
        (\<forall>s. post_balance st who sid (deposit_amount (deposit_request who sid amt asset))
              = Fin s \<and> 0 \<le> s \<and> s \<le> 10 ^ 9 \<longrightarrow>
           (\<exists>f. feeCharged d = Fin f \<and> 0 \<le> f \<and>
              \<bar>round_8 f - decimal_fee s\<bar> \<le> 1 / 10 ^ 8)))"
proof -
  define post where "post = post_balance st who sid (Number_nullish0 amt)"
  define fee where "fee = (if switches st who sid random
      then Number_toFixed8 (num_mul post feeRate) else Fin 0)"
  have a: "deposit_amount (deposit_request who sid amt asset) = Number_nullish0 amt"
    by (simp add: deposit_amount_def deposit_request_def)
  have d: "deposit st (deposit_request who sid amt asset) random now =
      apply_deposit st who sid (Number_nullish0 amt) asset random now"
    by (rule deposit_request_valid[OF assms])
  obtain dd :: deposit_data where dd:
    "fst (deposit st (deposit_request who sid amt asset) random now) = Success dd"
    "feeCharged dd = fee"
    unfolding d by (simp add: apply_deposit_eq Let_def fee_def post_def)
  have same: "feeCharged dd = Fin 0"
    if "decideAllocation random = allocation (current_account st who sid)"
    using that dd(2) by (simp add: fee_def switches_def)
  have diff: "feeCharged dd = Number_toFixed8 (num_mul post feeRate)"
    if "decideAllocation random \<noteq> allocation (current_account st who sid)"
    using that dd(2) by (auto simp add: fee_def switches_def)
  have rounded: "feeCharged dd = fl (round_8 x)"
    if "decideAllocation random \<noteq> allocation (current_account st who sid)"
      and "num_mul post feeRate = Fin x" "\<bar>x\<bar> < 10 ^ 21" for x
    using diff[OF that(1)] tf8_round_8[OF that(3)] by (simp only: that(2))
  have near: "\<exists>f. feeCharged dd = Fin f \<and> 0 \<le> f \<and> \<bar>round_8 f - decimal_fee s\<bar> \<le> 1 / 10 ^ 8"
    if "decideAllocation random \<noteq> allocation (current_account st who sid)"
      and "post = Fin s" "0 \<le> s" "s \<le> 10 ^ 9" for s
    using diff[OF that(1)] fee_near_decimal_fee[OF that(3,4)] by (simp only: that(2))
  show ?thesis
    unfolding a post_def[symmetric] feeRate_def[symmetric]
    using dd(1) same diff rounded near by blast
qed

theorem fee_only_on_switch_witness:
  "\<not> deposit_invalid (deposit_request ''inv1'' ''grid-1'' (Some (JNum 1000)) None) \<and>
   decideAllocation (3 / 4) \<noteq> allocation (current_account initial_state ''inv1'' ''grid-1'') \<and>
   post_balance initial_state ''inv1'' ''grid-1''
       (deposit_amount (deposit_request ''inv1'' ''grid-1'' (Some (JNum 1000)) None))
     = Fin 1000 \<and>
   (\<exists>d f. fst (deposit initial_state
              (deposit_request ''inv1'' ''grid-1'' (Some (JNum 1000)) None) (3 / 4) 5) = Success d \<and>
      feeCharged d = Fin f \<and> 0 \<le> f \<and> \<bar>round_8 f - decimal_fee 1000\<bar> \<le> 1 / 10 ^ 8)"
proof -
  have b: "\<not> deposit_invalid (deposit_request ''inv1'' ''grid-1'' (Some (JNum 1000)) None)"
    by (simp add: deposit_invalid_request Number_nullish0_def fl_1000 isFinite_def num_le_def)
  have s: "decideAllocation (3 / 4) \<noteq> allocation (current_account initial_state ''inv1'' ''grid-1'')"
    by (simp add: current_account_def initial_state_def decideAllocation_invested)
  have p: "post_balance initial_state ''inv1'' ''grid-1''
       (deposit_amount (deposit_request ''inv1'' ''grid-1'' (Some (JNum 1000)) None))
     = Fin 1000"
    by (simp add: post_balance_def current_account_def initial_state_def num_add_def
        deposit_amount_def deposit_request_def Number_nullish0_def fl_1000)
  have r: "(0::rat) \<le> 1000" "(1000::rat) \<le> 10 ^ 9" by simp_all
  note t = fee_only_on_switch[OF b, of initial_state "3 / 4" 5]
  show ?thesis using b s p r t by blast
qed

end
